theory Spec2Isabelle
  imports Main "HOL-Library.Word"
begin

unbundle bit_operations_syntax

section \<open>The subtitle extractor plugin: the model\<close>

text \<open>
  A shallow embedding of \<^verbatim>\<open>plugin.ts\<close> (the second half of \<^verbatim>\<open>src/src/index.ts\<close>)
  and of \<^verbatim>\<open>WebDAVClient.toWebDAVUrl\<close>. JavaScript strings are \<^typ>\<open>string\<close>, buffers
  are lists of bytes, the file system is a map from paths to the bytes of regular files.
  What the plugin calls but does not define (SHA-256 of Node's \<^verbatim>\<open>crypto\<close>,
  \<^verbatim>\<open>JSON.parse\<close>, \<^verbatim>\<open>path.join\<close>, the ffmpeg process, the metadata service)
  is a field of an environment record, so every theorem holds for any behaviour of these.
\<close>

subsection \<open>Bytes, files, errors\<close>

type_synonym byte = "8 word"

type_synonym files = "string \<rightharpoonup> byte list"

text \<open>The exceptions the modelled calls can raise.\<close>

datatype js_error = ENOENT | RangeError

subsection \<open>computeMidHash256Sync\<close>

definition SAMPLE_SIZE :: nat where
  "SAMPLE_SIZE = 1024 * 1024"

definition MIDHASH_VARINT :: "byte list" where
  "MIDHASH_VARINT = [0x80, 0x20]"

text \<open>
  \<^verbatim>\<open>stats.size\<close> is a JavaScript number. It is the exact length of the file up to
  \<^verbatim>\<open>Number.MAX_SAFE_INTEGER\<close>; the theorems about the identifier are stated for such files.
\<close>

definition MAX_SAFE_INTEGER :: nat where
  "MAX_SAFE_INTEGER = 2 ^ 53 - 1"

text \<open>
  \<^verbatim>\<open>sizeBuffer.writeBigUInt64BE(BigInt(fileSize), 0)\<close> on a fresh 8-byte buffer: the bytes,
  most significant first; a value of 64 bits or more raises a RangeError.
\<close>

definition writeBigUInt64BE :: "nat \<Rightarrow> js_error + byte list" where
  "writeBigUInt64BE n =
     (if n < 2 ^ 64
      then Inr [of_nat (n div 2 ^ 56), of_nat (n div 2 ^ 48), of_nat (n div 2 ^ 40),
                of_nat (n div 2 ^ 32), of_nat (n div 2 ^ 24), of_nat (n div 2 ^ 16),
                of_nat (n div 2 ^ 8), of_nat n]
      else Inl RangeError)"

text \<open>
  \<^verbatim>\<open>readSync(fd, buffer, 0, length, position)\<close> into a fresh buffer of \<open>length\<close> bytes,
  on a regular file that holds the bytes \<open>content\<close>.
\<close>

definition readSync :: "byte list \<Rightarrow> nat \<Rightarrow> nat \<Rightarrow> byte list" where
  "readSync content len position = take len (drop position content)"

definition base32Chars :: string where
  "base32Chars = ''abcdefghijklmnopqrstuvwxyz234567''"

text \<open>
  The inner \<^verbatim>\<open>while (bits >= 5)\<close> loop. JavaScript's \<^verbatim>\<open><<\<close>, \<^verbatim>\<open>>>\<close>, \<^verbatim>\<open>|\<close> and
  \<^verbatim>\<open>&\<close> work on 32-bit signed integers, so \<open>value\<close> is a 32-bit word, \<^verbatim>\<open>>>\<close> is the
  sign-propagating shift and \<^verbatim>\<open><<\<close> drops the bits shifted out.
\<close>

function emit5 :: "nat \<Rightarrow> 32 word \<Rightarrow> string \<Rightarrow> nat \<times> string" where
  "emit5 bits v cid =
     (if bits \<ge> 5
      then emit5 (bits - 5) v
             (cid @ [base32Chars ! unat (signed_drop_bit (bits - 5) v AND 0x1f)])
      else (bits, cid))"
  by pat_completeness auto
termination
  by (relation "measure (\<lambda>(bits, v, cid). bits)") auto

declare emit5.simps [simp del]

text \<open>The \<^verbatim>\<open>for (const byte of cidBytes)\<close> loop.\<close>

fun encode_loop :: "byte list \<Rightarrow> nat \<Rightarrow> 32 word \<Rightarrow> string \<Rightarrow> nat \<times> 32 word \<times> string" where
  "encode_loop [] bits v cid = (bits, v, cid)"
| "encode_loop (b # bs) bits v cid =
     (let v' = push_bit 8 v OR ucast b;
          (bits', cid') = emit5 (bits + 8) v' cid
      in encode_loop bs bits' v' cid')"

text \<open>From \<^verbatim>\<open>let cid = 'b'\<close> to \<^verbatim>\<open>return cid\<close>.\<close>

definition base32_encode :: "byte list \<Rightarrow> string" where
  "base32_encode cidBytes =
     (let (bits, v, cid) = encode_loop cidBytes 0 0 ''b''
      in if bits > 0
         then cid @ [base32Chars ! unat (push_bit (5 - bits) v AND 0x1f)]
         else cid)"

text \<open>
  The function itself. \<open>sha\<close> stands for \<^verbatim>\<open>createHash('sha256').update(_).digest()\<close>.
  \<^verbatim>\<open>statSync\<close> raises on a path that does not exist.
\<close>

definition computeMidHash256Sync ::
  "(byte list \<Rightarrow> byte list) \<Rightarrow> files \<Rightarrow> string \<Rightarrow> js_error + string" where
  "computeMidHash256Sync sha fs filePath =
     (case fs filePath of
        None \<Rightarrow> Inl ENOENT
      | Some content \<Rightarrow>
          (let fileSize = length content in
           case writeBigUInt64BE fileSize of
             Inl e \<Rightarrow> Inl e
           | Inr sizeBuffer \<Rightarrow>
               (let sampleData =
                      (if fileSize \<le> SAMPLE_SIZE
                       then readSync content fileSize 0
                       else (let middleOffset = (fileSize - SAMPLE_SIZE) div 2
                             in readSync content SAMPLE_SIZE middleOffset));
                    hashInput = sizeBuffer @ sampleData;
                    hashBuffer = sha hashInput;
                    cidBytes = [0x01] @ MIDHASH_VARINT @ MIDHASH_VARINT @ [0x20] @ hashBuffer
                in Inr (base32_encode cidBytes))))"

subsection \<open>JavaScript values the plugin tests and prints\<close>

text \<open>
  An optional string (a property that may be \<^verbatim>\<open>undefined\<close>) is truthy when it is present
  and not empty. \<open>or_else a d\<close> is \<^verbatim>\<open>a || d\<close> for a default \<open>d\<close> that is a string.
\<close>

fun truthy :: "string option \<Rightarrow> bool" where
  "truthy None = False"
| "truthy (Some s) = (s \<noteq> [])"

fun or_else :: "string option \<Rightarrow> string \<Rightarrow> string" where
  "or_else None d = d"
| "or_else (Some s) d = (if s \<noteq> [] then s else d)"

text \<open>A non-negative integer inside a template literal: its decimal digits.\<close>

definition digit_chars :: string where
  "digit_chars = ''0123456789''"

function show_nat :: "nat \<Rightarrow> string" where
  "show_nat n =
     (if n < 10 then [digit_chars ! n]
      else show_nat (n div 10) @ [digit_chars ! (n mod 10)])"
  by pat_completeness auto
termination
  by (relation "measure (\<lambda>n. n)") auto

declare show_nat.simps [simp del]

subsection \<open>sanitizeFilename\<close>

text \<open>
  Characters are code units below 256. \<^verbatim>\<open>/[<>:"/\\|?*]/g\<close> removes nine characters,
  \<^verbatim>\<open>/\s+/g\<close> turns every run of white space into one space, \<^verbatim>\<open>trim()\<close> removes white
  space at both ends.
\<close>

definition invalid_chars :: "char list" where
  "invalid_chars = [CHR ''<'', CHR ''>'', CHR '':'', CHR 0x22, CHR ''/'', CHR 0x5C,
                    CHR ''|'', CHR ''?'', CHR ''*'']"

definition is_space :: "char \<Rightarrow> bool" where
  "is_space c = (c \<in> set [CHR 0x09, CHR 0x0A, CHR 0x0B, CHR 0x0C, CHR 0x0D, CHR 0x20, CHR 0xA0])"

function collapse_spaces :: "string \<Rightarrow> string" where
  "collapse_spaces [] = []"
| "collapse_spaces (c # cs) =
     (if is_space c then CHR '' '' # collapse_spaces (dropWhile is_space cs)
      else c # collapse_spaces cs)"
  by pat_completeness auto
termination
  by (relation "measure length") (auto simp: length_dropWhile_le le_imp_less_Suc)

definition trim :: "string \<Rightarrow> string" where
  "trim s = rev (dropWhile is_space (rev (dropWhile is_space s)))"

definition sanitizeFilename :: "string \<Rightarrow> string" where
  "sanitizeFilename name =
     trim (collapse_spaces (filter (\<lambda>c. c \<notin> set invalid_chars) name))"

subsection \<open>parseSubtitleStreams\<close>

record SubtitleStream =
  index :: nat
  codec :: string
  language :: "string option"
  title :: "string option"

text \<open>
  What the loop reads of an entry of the parsed \<^verbatim>\<open>streams\<close> list: \<^verbatim>\<open>codec_type\<close>,
  \<^verbatim>\<open>codec_name\<close> and the two tags. An entry \<open>None\<close> is a JSON \<^verbatim>\<open>null\<close>, on which
  reading \<^verbatim>\<open>codec_type\<close> raises a TypeError.
\<close>

record RawTags =
  tag_language :: "string option"
  tag_title :: "string option"

record RawStream =
  codec_type :: "string option"
  codec_name :: "string option"
  tags :: "RawTags option"

text \<open>
  The \<^verbatim>\<open>for (const stream of allStreams)\<close> loop. The TypeError of a \<^verbatim>\<open>null\<close> entry is
  caught by the \<^verbatim>\<open>catch\<close> around the loop, and the streams pushed before it stay.
\<close>

fun json_streams_loop ::
  "RawStream option list \<Rightarrow> nat \<Rightarrow> SubtitleStream list \<Rightarrow> SubtitleStream list" where
  "json_streams_loop [] subtitleIndex streams = streams"
| "json_streams_loop (None # rest) subtitleIndex streams = streams"
| "json_streams_loop (Some stream # rest) subtitleIndex streams =
     (if codec_type stream = Some ''subtitle''
      then json_streams_loop rest (subtitleIndex + 1)
             (streams @
               [\<lparr>index = subtitleIndex,
                 codec = or_else (codec_name stream) ''unknown'',
                 language = (case tags stream of None \<Rightarrow> None | Some t \<Rightarrow> tag_language t),
                 title = (case tags stream of None \<Rightarrow> None | Some t \<Rightarrow> tag_title t)\<rparr>])
      else json_streams_loop rest subtitleIndex streams)"

text \<open>The fallback loop \<^verbatim>\<open>for (let i = 0; i < 20; i++)\<close>.\<close>

definition subtitle_key :: "nat \<Rightarrow> string \<Rightarrow> string" where
  "subtitle_key i field = ''subtitle_'' @ show_nat i @ ''_'' @ field"

function fallback_loop ::
  "(string \<rightharpoonup> string) \<Rightarrow> nat \<Rightarrow> SubtitleStream list \<Rightarrow> SubtitleStream list" where
  "fallback_loop existingMeta i streams =
     (if i < 20
      then (if truthy (existingMeta (subtitle_key i ''codec''))
            then fallback_loop existingMeta (i + 1)
                   (streams @
                     [\<lparr>index = i,
                       codec = or_else (existingMeta (subtitle_key i ''codec'')) [],
                       language = existingMeta (subtitle_key i ''language''),
                       title = existingMeta (subtitle_key i ''title'')\<rparr>])
            else fallback_loop existingMeta (i + 1) streams)
      else streams)"
  by pat_completeness auto
termination
  by (relation "measure (\<lambda>(existingMeta, i, streams). 20 - i)") auto

declare fallback_loop.simps [simp del]

text \<open>
  \<open>JSON_parse\<close> stands for \<^verbatim>\<open>JSON.parse\<close> followed by the start of the iteration: \<open>None\<close>
  when the text is not JSON or the value cannot be iterated (both raise inside the
  \<^verbatim>\<open>try\<close>), otherwise the entries of the list. \<open>json_path_streams\<close> is the value of
  \<^verbatim>\<open>streams\<close> after the \<^verbatim>\<open>if (streamsJson)\<close> block, \<open>parseSubtitleStreams\<close> the function.
\<close>

definition json_path_streams ::
  "(string \<Rightarrow> RawStream option list option) \<Rightarrow> (string \<rightharpoonup> string) \<Rightarrow> SubtitleStream list" where
  "json_path_streams JSON_parse existingMeta =
     (if truthy (existingMeta ''streams'')
      then (case JSON_parse (or_else (existingMeta ''streams'') []) of
              None \<Rightarrow> []
            | Some allStreams \<Rightarrow> json_streams_loop allStreams 0 [])
      else [])"

definition parseSubtitleStreams ::
  "(string \<Rightarrow> RawStream option list option) \<Rightarrow> (string \<rightharpoonup> string) \<Rightarrow> SubtitleStream list" where
  "parseSubtitleStreams JSON_parse existingMeta =
     (let streams = json_path_streams JSON_parse existingMeta
      in if length streams = 0 then fallback_loop existingMeta 0 streams else streams)"

subsection \<open>WebDAVClient\<close>

text \<open>The constructor: \<^verbatim>\<open>baseUrl.replace(/\/$/, '')\<close>.\<close>

definition WebDAVClient :: "string \<Rightarrow> string" where
  "WebDAVClient baseUrl =
     (if baseUrl \<noteq> [] \<and> last baseUrl = CHR ''/'' then butlast baseUrl else baseUrl)"

definition toWebDAVUrl :: "string \<Rightarrow> string \<Rightarrow> string" where
  "toWebDAVUrl baseUrl filePath =
     (let relativePath =
            (if take 7 filePath = ''/files/'' then drop 6 filePath
             else if take 6 filePath = ''/files'' then drop 6 filePath
             else filePath);
          relativePath' =
            (if take 1 relativePath \<noteq> ''/'' then ''/'' @ relativePath else relativePath)
      in baseUrl @ relativePath')"

text \<open>\<^verbatim>\<open>createWebDAVClient\<close>, from the environment variable \<^verbatim>\<open>WEBDAV_URL\<close>.\<close>

definition createWebDAVClient :: "string option \<Rightarrow> string option" where
  "createWebDAVClient webdavUrl =
     (if truthy webdavUrl then Some (WebDAVClient (or_else webdavUrl [])) else None)"

subsection \<open>The world of a run\<close>

definition PLUGIN_OUTPUT_PATH :: string where
  "PLUGIN_OUTPUT_PATH = ''/output''"

definition UNSUPPORTED_SUBTITLE_CODECS :: "string set" where
  "UNSUPPORTED_SUBTITLE_CODECS =
     {''hdmv_pgs_subtitle'', ''pgssub'', ''dvd_subtitle'', ''dvdsub'', ''dvb_subtitle'',
      ''dvbsub'', ''xsub''}"

definition CODEC_EXTENSION_MAP :: "string \<rightharpoonup> string" where
  "CODEC_EXTENSION_MAP =
     map_of [(''subrip'', ''srt''), (''srt'', ''srt''), (''ass'', ''ass''), (''ssa'', ''ssa''),
             (''webvtt'', ''vtt''), (''mov_text'', ''srt''), (''text'', ''srt'')]"

text \<open>The module's two settings, and \<^verbatim>\<open>configure\<close>, which sets them.\<close>

record Config =
  forceRecompute :: bool
  outputFormat :: string

definition configure :: "bool option \<Rightarrow> string option \<Rightarrow> Config" where
  "configure config_forceRecompute config_outputFormat =
     \<lparr>forceRecompute = (config_forceRecompute = Some True),
      outputFormat = or_else config_outputFormat ''srt''\<rparr>"

text \<open>The fields of the request that \<^verbatim>\<open>process\<close> reads.\<close>

record Request =
  taskId :: string
  cid :: string
  filePath :: string
  existingMeta :: "(string \<rightharpoonup> string) option"

datatype Status = Skipped | Completed | Failed

text \<open>The callback payload, without \<^verbatim>\<open>duration\<close> (a difference of two clock readings).\<close>

record CallbackPayload =
  payload_taskId :: string
  status :: Status
  reason :: "string option"
  error :: "string option"

text \<open>
  What \<^verbatim>\<open>spawn('ffmpeg', args)\<close> and the process do, as \<^verbatim>\<open>extractSubtitle\<close> sees it:
  \<^verbatim>\<open>spawn\<close> raises at once, with a message; or the \<^verbatim>\<open>close\<close> event comes, with the exit code
  (none when a signal ended the process), so many milliseconds after the spawn; or the
  \<^verbatim>\<open>error\<close> event comes, so many milliseconds after the spawn; or neither event comes.
\<close>

datatype ToolOutcome =
    SpawnThrows string
  | Close "int option" nat
  | SpawnError nat
  | Hangs

text \<open>
  What a run does to the outside, in order: processes spawned, timers set, processes
  killed, files removed, the output directory created, calls of \<^verbatim>\<open>metaCore.addToSet\<close>,
  the line logged when an output file is found on disk, and callbacks sent.
\<close>

datatype Event =
    Spawn "string list"
  | SetTimeout nat
  | Kill string
  | Unlink string
  | Mkdir string
  | AddToSet string string string
  | LogAlreadyExists string
  | SendCallback CallbackPayload

text \<open>
  The world: the regular files, whether the output directory exists, the events so far,
  a clock that counts the milliseconds the run has waited for ffmpeg, and the times at
  which timers that were set and have not fired will fire. No code clears a timer.
\<close>

record World =
  files :: files
  outputDirExists :: bool
  trace :: "Event list"
  clock :: nat
  timers :: "nat list"

text \<open>
  The collaborators: \<open>ffmpeg\<close> maps the arguments and the files to the way the process
  ends and the files it leaves; \<open>mkdirSync_error\<close> is the message of the exception of
  \<^verbatim>\<open>mkdirSync\<close>, if it raises; \<open>addToSet_throws\<close> tells the calls of the metadata client
  that raise.
\<close>

record Env =
  sha256 :: "byte list \<Rightarrow> byte list"
  JSON_parse :: "string \<Rightarrow> RawStream option list option"
  path_join :: "string \<Rightarrow> string \<Rightarrow> string"
  ffmpeg :: "string list \<Rightarrow> files \<Rightarrow> ToolOutcome \<times> files"
  mkdirSync_error :: "string option"
  addToSet_throws :: "string \<Rightarrow> string \<Rightarrow> string \<Rightarrow> bool"
  WEBDAV_URL :: "string option"

definition emit :: "Event \<Rightarrow> World \<Rightarrow> World" where
  "emit e w = w\<lparr>trace := trace w @ [e]\<rparr>"

definition existsSync :: "World \<Rightarrow> string \<Rightarrow> bool" where
  "existsSync w p = (files w p \<noteq> None)"

subsection \<open>extractSubtitle\<close>

definition ffmpeg_args :: "string \<Rightarrow> nat \<Rightarrow> string \<Rightarrow> string \<Rightarrow> string list" where
  "ffmpeg_args inputPath subtitleIndex outputCodec outputPath =
     [''-y'', ''-hide_banner'', ''-loglevel'', ''error'', ''-probesize'', ''1M'',
      ''-analyzeduration'', ''1M'', ''-i'', inputPath,
      ''-map'', ''0:s:'' @ show_nat subtitleIndex, ''-c:s'', outputCodec, outputPath]"

text \<open>
  \<open>outputCodec_of\<close> is the choice of \<^verbatim>\<open>outputCodec\<close> at the head of the function;
  its parameter \<^verbatim>\<open>codec\<close> is never read.

  The executor of the promise calls \<^verbatim>\<open>spawn\<close>, registers the handlers and sets a timer
  of 120000 ms. An exception of \<^verbatim>\<open>spawn\<close> leaves the executor before the timer is set and
  rejects the promise: the result \<open>Inl\<close>, with the message. Otherwise the promise
  resolves once, by the handler that runs first; an event at 120000 ms or later comes after
  the timer. On \<^verbatim>\<open>close\<close> with code 0 and the output file present, the file is kept when
  it has more than 10 bytes and unlinked otherwise; on any other \<^verbatim>\<open>close\<close> and on
  \<^verbatim>\<open>error\<close> nothing is removed; on the timer the process is sent SIGKILL and the promise
  resolves to false. The process is taken to be running when the timer fires: it dies of
  the signal, and its \<^verbatim>\<open>close\<close> event, which carries no exit code, removes nothing and
  finds the promise settled. When an event resolves the promise the timer stays set: it
  fires later, on a process that has exited and a promise that is settled, and changes
  nothing.
\<close>

definition outputCodec_of :: "Config \<Rightarrow> string" where
  "outputCodec_of cfg =
     (if outputFormat cfg = ''vtt'' then ''webvtt''
      else if outputFormat cfg = ''ass'' then ''ass''
      else ''srt'')"

definition extractSubtitle ::
  "Env \<Rightarrow> Config \<Rightarrow> string \<Rightarrow> string \<Rightarrow> nat \<Rightarrow> string \<Rightarrow> World \<Rightarrow> string + bool \<times> World" where
  "extractSubtitle env cfg inputPath outputPath subtitleIndex codec_unused w =
     (let outputCodec = outputCodec_of cfg;
          args = ffmpeg_args inputPath subtitleIndex outputCodec outputPath;
          (outcome, fs') = ffmpeg env args (files w);
          w1 = emit (SetTimeout 120000) (emit (Spawn args) (w\<lparr>files := fs'\<rparr>));
          by_event = (\<lambda>t. w1\<lparr>clock := clock w + t, timers := timers w @ [clock w + 120000]\<rparr>);
          by_timer = emit (Kill ''SIGKILL'') (w1\<lparr>clock := clock w + 120000\<rparr>)
      in case outcome of
           SpawnThrows message \<Rightarrow> Inl message
         | Close code t \<Rightarrow>
             (if t < 120000
              then (case (if code = Some 0 then fs' outputPath else None) of
                      Some bytes \<Rightarrow>
                        (if length bytes > 10 then Inr (True, by_event t)
                         else Inr (False, emit (Unlink outputPath)
                                            ((by_event t)\<lparr>files := fs'(outputPath := None)\<rparr>)))
                    | None \<Rightarrow> Inr (False, by_event t))
              else Inr (False, by_timer))
         | SpawnError t \<Rightarrow>
             (if t < 120000 then Inr (False, by_event t) else Inr (False, by_timer))
         | Hangs \<Rightarrow> Inr (False, by_timer))"

subsection \<open>process\<close>

text \<open>\<^verbatim>\<open>existingMeta?.key\<close>.\<close>

definition meta :: "Request \<Rightarrow> string \<Rightarrow> string option" where
  "meta request k = (case existingMeta request of None \<Rightarrow> None | Some m \<Rightarrow> m k)"

definition sendCallback :: "CallbackPayload \<Rightarrow> World \<Rightarrow> World" where
  "sendCallback payload w = emit (SendCallback payload) w"

definition skipped :: "Request \<Rightarrow> string \<Rightarrow> World \<Rightarrow> World" where
  "skipped request why w =
     sendCallback \<lparr>payload_taskId = taskId request, status = Skipped,
                   reason = Some why, error = None\<rparr> w"

text \<open>\<^verbatim>\<open>if (sub.language && !extractedLanguages.includes(sub.language)) push\<close>.\<close>

definition push_language :: "SubtitleStream \<Rightarrow> string list \<Rightarrow> string list" where
  "push_language sub extractedLanguages =
     (if truthy (language sub) \<and> or_else (language sub) [] \<notin> set extractedLanguages
      then extractedLanguages @ [or_else (language sub) []]
      else extractedLanguages)"

definition outputFilename_of :: "Config \<Rightarrow> string \<Rightarrow> string \<Rightarrow> string \<Rightarrow> SubtitleStream \<Rightarrow> string" where
  "outputFilename_of cfg safeTitle yearStr videoCid sub =
     (let langSuffix =
            (if truthy (language sub) then ''.'' @ or_else (language sub) []
             else ''.'' @ show_nat (index sub));
          ext = outputFormat cfg
      in safeTitle @ yearStr @ ''['' @ videoCid @ '']_subtitle'' @ langSuffix @ ''.'' @ ext)"

definition outputPath_of :: "Env \<Rightarrow> Config \<Rightarrow> string \<Rightarrow> string \<Rightarrow> string \<Rightarrow> SubtitleStream \<Rightarrow> string" where
  "outputPath_of env cfg safeTitle yearStr videoCid sub =
     path_join env PLUGIN_OUTPUT_PATH (outputFilename_of cfg safeTitle yearStr videoCid sub)"

text \<open>
  The body of \<^verbatim>\<open>for (const sub of textSubtitles)\<close>, on the two arrays and the world. Both
  \<^verbatim>\<open>try\<close> blocks catch everything: a failure to compute the identifier leaves the arrays
  as they are, and an exception of \<^verbatim>\<open>addToSet\<close> skips what follows it in the block.
  \<^verbatim>\<open>await extractSubtitle(...)\<close> stands outside both blocks: when the promise is
  rejected the exception leaves the loop, which is the result \<open>Inl\<close> with the message and
  the world as it is then.
\<close>

type_synonym LoopState = "string list \<times> string list \<times> World"

definition process_stream ::
  "Env \<Rightarrow> Config \<Rightarrow> string \<Rightarrow> string \<Rightarrow> string \<Rightarrow> string \<Rightarrow> SubtitleStream
     \<Rightarrow> LoopState \<Rightarrow> string \<times> World + LoopState" where
  "process_stream env cfg videoCid inputPath safeTitle yearStr sub st =
     (case st of (extractedCids, extractedLanguages, w) \<Rightarrow>
       (let outputFilename = outputFilename_of cfg safeTitle yearStr videoCid sub;
            outputPath = path_join env PLUGIN_OUTPUT_PATH outputFilename
        in if existsSync w outputPath \<and> \<not> forceRecompute cfg
           then (let w1 = emit (LogAlreadyExists outputFilename) w
                 in case computeMidHash256Sync (sha256 env) (files w1) outputPath of
                      Inr subtitleCid \<Rightarrow>
                        Inr (extractedCids @ [subtitleCid],
                             push_language sub extractedLanguages, w1)
                    | Inl e \<Rightarrow> Inr (extractedCids, extractedLanguages, w1))
           else (case extractSubtitle env cfg inputPath outputPath (index sub) (codec sub) w of
                   Inl message \<Rightarrow> Inl (message, w)
                 | Inr (extracted, w1) \<Rightarrow>
                     if extracted
                     then (case computeMidHash256Sync (sha256 env) (files w1) outputPath of
                             Inr subtitleCid \<Rightarrow>
                               (let extractedCids' = extractedCids @ [subtitleCid];
                                    extractedLanguages' = push_language sub extractedLanguages;
                                    w2 = emit (AddToSet videoCid ''extractedSubtitles'' subtitleCid) w1
                                in if addToSet_throws env videoCid ''extractedSubtitles'' subtitleCid
                                   then Inr (extractedCids', extractedLanguages', w2)
                                   else if truthy (language sub)
                                   then Inr (extractedCids', extractedLanguages',
                                             emit (AddToSet videoCid ''subtitleLanguages''
                                                     (or_else (language sub) [])) w2)
                                   else Inr (extractedCids', extractedLanguages', w2))
                           | Inl e \<Rightarrow> Inr (extractedCids, extractedLanguages, w1))
                     else Inr (extractedCids, extractedLanguages, w1))))"

fun process_streams ::
  "Env \<Rightarrow> Config \<Rightarrow> string \<Rightarrow> string \<Rightarrow> string \<Rightarrow> string \<Rightarrow> SubtitleStream list
     \<Rightarrow> LoopState \<Rightarrow> string \<times> World + LoopState" where
  "process_streams env cfg videoCid inputPath safeTitle yearStr [] st = Inr st"
| "process_streams env cfg videoCid inputPath safeTitle yearStr (sub # rest) st =
     (case process_stream env cfg videoCid inputPath safeTitle yearStr sub st of
        Inl raised \<Rightarrow> Inl raised
      | Inr st' \<Rightarrow> process_streams env cfg videoCid inputPath safeTitle yearStr rest st')"

text \<open>
  \<^verbatim>\<open>process\<close> after its four early returns: the input path, the output directory, the
  title, the loop and the last callback. An exception of \<^verbatim>\<open>mkdirSync\<close>, and one that
  leaves the loop, reach the outer \<^verbatim>\<open>catch\<close>, which reports the run as failed with the
  message of the exception.
\<close>

definition inputPath_of :: "Env \<Rightarrow> Request \<Rightarrow> string" where
  "inputPath_of env request =
     (case createWebDAVClient (WEBDAV_URL env) of
        Some baseUrl \<Rightarrow> toWebDAVUrl baseUrl (filePath request)
      | None \<Rightarrow> filePath request)"

definition safeTitle_of :: "Request \<Rightarrow> string" where
  "safeTitle_of request =
     sanitizeFilename
       (or_else (meta request ''originalTitle'')
         (or_else (meta request ''title'')
           (or_else (meta request ''fileName'') ''video'')))"

definition yearStr_of :: "Request \<Rightarrow> string" where
  "yearStr_of request =
     (if truthy (meta request ''movieYear'')
      then '' ('' @ or_else (meta request ''movieYear'') [] @ '')''
      else [])"

definition extract_all :: "Env \<Rightarrow> Config \<Rightarrow> Request \<Rightarrow> SubtitleStream list \<Rightarrow> World \<Rightarrow> World" where
  "extract_all env cfg request textSubtitles w =
     (let inputPath = inputPath_of env request
      in if \<not> outputDirExists w \<and> mkdirSync_error env \<noteq> None
         then sendCallback \<lparr>payload_taskId = taskId request, status = Failed,
                            reason = None, error = mkdirSync_error env\<rparr> w
         else (let w1 = (if \<not> outputDirExists w
                         then emit (Mkdir PLUGIN_OUTPUT_PATH) (w\<lparr>outputDirExists := True\<rparr>)
                         else w);
                   safeTitle = safeTitle_of request;
                   yearStr = yearStr_of request
               in case process_streams env cfg (cid request) inputPath safeTitle yearStr
                         textSubtitles ([], [], w1) of
                    Inr (extractedCids, extractedLanguages, w2) \<Rightarrow>
                      sendCallback \<lparr>payload_taskId = taskId request, status = Completed,
                                     reason = None, error = None\<rparr> w2
                  | Inl (message, w2) \<Rightarrow>
                      sendCallback \<lparr>payload_taskId = taskId request, status = Failed,
                                     reason = None, error = Some message\<rparr> w2))"

definition process :: "Env \<Rightarrow> Config \<Rightarrow> Request \<Rightarrow> World \<Rightarrow> World" where
  "process env cfg request w =
     (if meta request ''fileType'' \<noteq> Some ''video''
      then skipped request ''Not a video file'' w
      else if truthy (meta request ''extractedSubtitles'') \<and> \<not> forceRecompute cfg
      then skipped request ''Subtitles already extracted'' w
      else (let subtitleStreams =
                  parseSubtitleStreams (JSON_parse env)
                    (case existingMeta request of None \<Rightarrow> Map.empty | Some m \<Rightarrow> m)
            in if length subtitleStreams = 0
               then skipped request ''No subtitle streams found'' w
               else (let textSubtitles =
                           filter (\<lambda>s. codec s \<notin> UNSUPPORTED_SUBTITLE_CODECS) subtitleStreams
                     in if length textSubtitles = 0
                        then skipped request
                               ''Only image-based subtitles (cannot convert to text)'' w
                        else extract_all env cfg request textSubtitles w)))"

subsection \<open>What a run is observed to do\<close>

text \<open>
  The events a run, or one pass of the loop body, adds to the trace; the streams the run
  parses and the ones it keeps; the two events that show a stream was taken up (the tool
  spawned for it, or its output file found); and the arguments and the file name of the
  run for a stream.
\<close>

definition run_events :: "Env \<Rightarrow> Config \<Rightarrow> Request \<Rightarrow> World \<Rightarrow> Event list" where
  "run_events env cfg request w = drop (length (trace w)) (trace (process env cfg request w))"

definition result_world :: "string \<times> World + LoopState \<Rightarrow> World" where
  "result_world r = (case r of Inl (message, w) \<Rightarrow> w | Inr (cids, langs, w) \<Rightarrow> w)"

definition step_events ::
  "Env \<Rightarrow> Config \<Rightarrow> string \<Rightarrow> string \<Rightarrow> string \<Rightarrow> string \<Rightarrow> SubtitleStream
     \<Rightarrow> LoopState \<Rightarrow> Event list" where
  "step_events env cfg videoCid inputPath safeTitle yearStr sub st =
     drop (length (trace (snd (snd st))))
       (trace (result_world
                 (process_stream env cfg videoCid inputPath safeTitle yearStr sub st)))"

definition parsed_streams :: "Env \<Rightarrow> Request \<Rightarrow> SubtitleStream list" where
  "parsed_streams env request =
     parseSubtitleStreams (JSON_parse env)
       (case existingMeta request of None \<Rightarrow> Map.empty | Some m \<Rightarrow> m)"

definition text_streams :: "Env \<Rightarrow> Request \<Rightarrow> SubtitleStream list" where
  "text_streams env request =
     filter (\<lambda>s. codec s \<notin> UNSUPPORTED_SUBTITLE_CODECS) (parsed_streams env request)"

fun is_attempt :: "Event \<Rightarrow> bool" where
  "is_attempt (Spawn args) = True"
| "is_attempt (LogAlreadyExists name) = True"
| "is_attempt e = False"

definition spawn_of ::
  "Env \<Rightarrow> Config \<Rightarrow> string \<Rightarrow> string \<Rightarrow> string \<Rightarrow> string \<Rightarrow> SubtitleStream \<Rightarrow> Event" where
  "spawn_of env cfg videoCid inputPath safeTitle yearStr sub =
     Spawn (ffmpeg_args inputPath (index sub) (outputCodec_of cfg)
              (outputPath_of env cfg safeTitle yearStr videoCid sub))"

definition found_of :: "Config \<Rightarrow> string \<Rightarrow> string \<Rightarrow> string \<Rightarrow> SubtitleStream \<Rightarrow> Event" where
  "found_of cfg videoCid safeTitle yearStr sub =
     LogAlreadyExists (outputFilename_of cfg safeTitle yearStr videoCid sub)"

definition attempt_of ::
  "Env \<Rightarrow> Config \<Rightarrow> string \<Rightarrow> string \<Rightarrow> string \<Rightarrow> string \<Rightarrow> Event \<Rightarrow> SubtitleStream \<Rightarrow> bool" where
  "attempt_of env cfg videoCid inputPath safeTitle yearStr e sub =
     (e = spawn_of env cfg videoCid inputPath safeTitle yearStr sub
      \<or> e = found_of cfg videoCid safeTitle yearStr sub)"

definition run_attempt_of :: "Env \<Rightarrow> Config \<Rightarrow> Request \<Rightarrow> Event \<Rightarrow> SubtitleStream \<Rightarrow> bool" where
  "run_attempt_of env cfg request =
     attempt_of env cfg (cid request) (inputPath_of env request) (safeTitle_of request)
       (yearStr_of request)"

text \<open>The payloads of the callbacks among some events, in order.\<close>

fun callbacks :: "Event list \<Rightarrow> CallbackPayload list" where
  "callbacks [] = []"
| "callbacks (SendCallback p # es) = p # callbacks es"
| "callbacks (e # es) = callbacks es"


text \<open>An entry of the parsed list that the loop keeps: not null, marked as a subtitle.\<close>

definition is_subtitle_entry :: "RawStream option \<Rightarrow> bool" where
  "is_subtitle_entry e =
     (case e of None \<Rightarrow> False | Some r \<Rightarrow> codec_type r = Some ''subtitle'')"

subsection \<open>The identifier as the specification words it\<close>

text \<open>
  These definitions follow the specification, not the code: the bits of the bytes, most
  significant first, cut into groups of five, a shorter last group filled with zeros on the
  right, each group read as a number that indexes the lowercase RFC 4648 alphabet.
\<close>

definition byte_bits :: "byte \<Rightarrow> bool list" where
  "byte_bits b = map (\<lambda>i. bit b (7 - i)) [0..<8]"

definition bits_of_bytes :: "byte list \<Rightarrow> bool list" where
  "bits_of_bytes bs = concat (map byte_bits bs)"

definition bl_val :: "bool list \<Rightarrow> nat" where
  "bl_val bs = foldl (\<lambda>n b. 2 * n + of_bool b) 0 bs"

function groups5 :: "bool list \<Rightarrow> bool list list" where
  "groups5 bs =
     (if bs = [] then []
      else if length bs < 5 then [bs @ replicate (5 - length bs) False]
      else take 5 bs # groups5 (drop 5 bs))"
  by pat_completeness auto
termination
  by (relation "measure length") auto

declare groups5.simps [simp del]

definition rfc4648_lower :: string where
  "rfc4648_lower = ''abcdefghijklmnopqrstuvwxyz234567''"

definition base32_spec :: "byte list \<Rightarrow> string" where
  "base32_spec bs = map (\<lambda>g. rfc4648_lower ! bl_val g) (groups5 (bits_of_bytes bs))"

text \<open>The \<open>k\<close>-byte big-endian encoding of a number.\<close>

fun big_endian :: "nat \<Rightarrow> nat \<Rightarrow> byte list" where
  "big_endian 0 n = []"
| "big_endian (Suc k) n = big_endian k (n div 256) @ [of_nat (n mod 256)]"

text \<open>The sample: the whole file up to 1 MiB, the centred window of 1 MiB above.\<close>

definition sample_spec :: "byte list \<Rightarrow> byte list" where
  "sample_spec content =
     (if length content \<le> 1048576 then content
      else take 1048576 (drop ((length content - 1048576) div 2) content))"

definition cid_structure_spec :: "(byte list \<Rightarrow> byte list) \<Rightarrow> byte list \<Rightarrow> byte list" where
  "cid_structure_spec sha content =
     [0x01, 0x80, 0x20, 0x80, 0x20, 0x20]
       @ sha (big_endian 8 (length content) @ sample_spec content)"

definition cid_spec :: "(byte list \<Rightarrow> byte list) \<Rightarrow> byte list \<Rightarrow> string" where
  "cid_spec sha content = CHR ''b'' # base32_spec (cid_structure_spec sha content)"

text \<open>
  The bytes that are hashed, and the positions of the centred window of a file longer than
  1 MiB.
\<close>

definition hash_input_spec :: "byte list \<Rightarrow> byte list" where
  "hash_input_spec content = big_endian 8 (length content) @ sample_spec content"

definition in_window :: "byte list \<Rightarrow> nat \<Rightarrow> bool" where
  "in_window content i =
     ((length content - 1048576) div 2 \<le> i \<and> i < (length content - 1048576) div 2 + 1048576)"

subsection \<open>Concrete inputs\<close>

text \<open>
  A stand-in for SHA-256 with a digest of 32 bytes, for evaluating the model on concrete
  files.
\<close>

definition toy_digest :: "byte list \<Rightarrow> byte list" where
  "toy_digest x = replicate 32 (of_nat (length x))"

text \<open>
  A run on a video whose ffmpeg metadata lists a video stream and three subtitle streams
  (SubRip in English, a DVD bitmap stream, ASS in French), a run on a video described by
  the indexed fields alone, and four behaviours of ffmpeg: it cannot be started, which the
  \<^verbatim>\<open>error\<close> event reports after 3 ms; it fails on the first subtitle stream after 800 ms,
  leaving five bytes, and writes twenty bytes in 1500 ms for the others; \<^verbatim>\<open>spawn\<close> raises
  for the first subtitle stream; the process never ends on the first subtitle stream,
  having written five bytes. The metadata is read through \<open>JSON_parse\<close> from the text
  \<open>[streams]\<close>.
\<close>

definition demo_cfg :: Config where
  "demo_cfg = \<lparr>forceRecompute = False, outputFormat = ''srt''\<rparr>"

definition demo_parsed :: "RawStream option list" where
  "demo_parsed =
     [Some \<lparr>codec_type = Some ''video'', codec_name = Some ''h264'', tags = None\<rparr>,
      Some \<lparr>codec_type = Some ''subtitle'', codec_name = Some ''subrip'',
            tags = Some \<lparr>tag_language = Some ''eng'', tag_title = None\<rparr>\<rparr>,
      Some \<lparr>codec_type = Some ''subtitle'', codec_name = Some ''dvd_subtitle'', tags = None\<rparr>,
      Some \<lparr>codec_type = Some ''subtitle'', codec_name = Some ''ass'',
            tags = Some \<lparr>tag_language = Some ''fre'', tag_title = None\<rparr>\<rparr>]"

definition demo_env :: "(string list \<Rightarrow> files \<Rightarrow> ToolOutcome \<times> files) \<Rightarrow> Env" where
  "demo_env tool =
     \<lparr>sha256 = toy_digest,
      JSON_parse = (\<lambda>s. if s = ''[streams]'' then Some demo_parsed else None),
      path_join = (\<lambda>dir name. dir @ ''/'' @ name),
      ffmpeg = tool,
      mkdirSync_error = None,
      addToSet_throws = (\<lambda>c f v. False),
      WEBDAV_URL = None\<rparr>"

definition demo_request :: Request where
  "demo_request =
     \<lparr>taskId = ''task-1'', cid = ''bvideo'', filePath = ''/files/watch/sintel.mkv'',
      existingMeta = Some [''fileType'' \<mapsto> ''video'', ''streams'' \<mapsto> ''[streams]'',
                           ''fileName'' \<mapsto> ''Sintel'', ''movieYear'' \<mapsto> ''2010'']\<rparr>"

definition captions_request :: Request where
  "captions_request =
     \<lparr>taskId = ''task-2'', cid = ''bvideo'', filePath = ''/files/watch/news.ts'',
      existingMeta = Some [''fileType'' \<mapsto> ''video'', ''subtitle_1_codec'' \<mapsto> ''eia_608'']\<rparr>"

definition tool_missing :: "string list \<Rightarrow> files \<Rightarrow> ToolOutcome \<times> files" where
  "tool_missing args fs = (SpawnError 3, fs)"

definition tool_first_fails :: "string list \<Rightarrow> files \<Rightarrow> ToolOutcome \<times> files" where
  "tool_first_fails args fs =
     (if args ! 11 = ''0:s:0''
      then (Close (Some 1) 800, fs(last args \<mapsto> replicate 5 0x31))
      else (Close (Some 0) 1500, fs(last args \<mapsto> replicate 20 0x31)))"

definition tool_first_throws :: "string list \<Rightarrow> files \<Rightarrow> ToolOutcome \<times> files" where
  "tool_first_throws args fs =
     (if args ! 11 = ''0:s:0''
      then (SpawnThrows ''spawn ENOMEM'', fs)
      else (Close (Some 0) 1500, fs(last args \<mapsto> replicate 20 0x31)))"

definition tool_first_hangs :: "string list \<Rightarrow> files \<Rightarrow> ToolOutcome \<times> files" where
  "tool_first_hangs args fs =
     (if args ! 11 = ''0:s:0''
      then (Hangs, fs(last args \<mapsto> replicate 5 0x31))
      else (Close (Some 0) 1500, fs(last args \<mapsto> replicate 20 0x31)))"

definition empty_world :: World where
  "empty_world =
     \<lparr>files = Map.empty, outputDirExists = True, trace = [], clock = 0, timers = []\<rparr>"

text \<open>
  More inputs: a request for a file that is not a video, one for a video with Blu-ray
  bitmap subtitles only, one for a video whose \<^verbatim>\<open>extractedSubtitles\<close> field is the empty
  string, one for a video whose subtitles are recorded as extracted, one for a video
  without subtitle streams, the streams of the runs above, and a world in which the output
  file of the English stream is on disk.
\<close>

definition audio_request :: Request where
  "audio_request =
     \<lparr>taskId = ''task-3'', cid = ''baudio'', filePath = ''/files/watch/song.flac'',
      existingMeta = Some [''fileType'' \<mapsto> ''audio'']\<rparr>"

definition bluray_request :: Request where
  "bluray_request =
     \<lparr>taskId = ''task-4'', cid = ''bvideo'', filePath = ''/files/watch/film.m2ts'',
      existingMeta = Some [''fileType'' \<mapsto> ''video'',
                           ''subtitle_0_codec'' \<mapsto> ''hdmv_pgs_subtitle'',
                           ''subtitle_1_codec'' \<mapsto> ''hdmv_pgs_subtitle'']\<rparr>"

definition blank_request :: Request where
  "blank_request =
     \<lparr>taskId = ''task-5'', cid = ''bvideo'', filePath = ''/files/watch/clip.mkv'',
      existingMeta = Some [''fileType'' \<mapsto> ''video'', ''extractedSubtitles'' \<mapsto> [],
                           ''subtitle_0_codec'' \<mapsto> ''subrip'']\<rparr>"

definition extracted_request :: Request where
  "extracted_request =
     \<lparr>taskId = ''task-6'', cid = ''bvideo'', filePath = ''/files/watch/sintel.mkv'',
      existingMeta = Some [''fileType'' \<mapsto> ''video'', ''streams'' \<mapsto> ''[streams]'',
                           ''extractedSubtitles'' \<mapsto> ''bsubtitle'']\<rparr>"

definition silent_request :: Request where
  "silent_request =
     \<lparr>taskId = ''task-7'', cid = ''bvideo'', filePath = ''/files/watch/silent.mkv'',
      existingMeta = Some [''fileType'' \<mapsto> ''video'']\<rparr>"

definition eng_stream :: SubtitleStream where
  "eng_stream = \<lparr>index = 0, codec = ''subrip'', language = Some ''eng'', title = None\<rparr>"

definition fre_stream :: SubtitleStream where
  "fre_stream = \<lparr>index = 2, codec = ''ass'', language = Some ''fre'', title = None\<rparr>"

definition captions_stream :: SubtitleStream where
  "captions_stream = \<lparr>index = 1, codec = ''eia_608'', language = None, title = None\<rparr>"

definition eng_path :: string where
  "eng_path = ''/output/Sintel (2010)[bvideo]_subtitle.eng.srt''"

definition rerun_world :: World where
  "rerun_world =
     \<lparr>files = [eng_path \<mapsto> replicate 20 0x31], outputDirExists = True, trace = [],
      clock = 0, timers = []\<rparr>"

definition fre_path :: string where
  "fre_path = ''/output/Sintel (2010)[bvideo]_subtitle.fre.srt''"

section \<open>Verification\<close>

subsection \<open>The base32 loop computes the RFC 4648 encoding\<close>

lemma mask5: "(0x1f::32 word) = mask 5"
  by (simp add: mask_eq_exp_minus_1)

text \<open>
  The three places where the loop reads \<open>value\<close>: a symbol is five bits of it below bit 31,
  so neither the sign nor the bits lost by earlier shifts are seen.
\<close>

lemma sym_index:
  assumes "n \<le> 26"
  shows "unat (signed_drop_bit n (v::32 word) AND 0x1f) = take_bit 5 (drop_bit n (unat v))"
proof -
  have "signed_drop_bit n v AND 0x1f = take_bit 5 (drop_bit n v)"
    unfolding mask5 using assms by (intro bit_word_eqI) (auto simp: bit_simps)
  then show ?thesis
    by (simp add: unsigned_take_bit_eq unat_drop_bit_eq)
qed

lemma shift_in:
  assumes "n \<le> 24"
  shows "take_bit (n + 8) (unat (push_bit 8 (v::32 word) OR ucast (b::byte)))
           = push_bit 8 (take_bit n (unat v)) + unat b"
proof -
  have d: "push_bit 8 (take_bit n (unat v)) + unat b = push_bit 8 (take_bit n (unat v)) OR unat b"
    by (rule disjunctive_add) (auto simp: bit_simps dest: bit_imp_le_length)
  have "take_bit (n + 8) (unat (push_bit 8 v OR ucast b))
          = push_bit 8 (take_bit n (unat v)) OR unat b"
    using assms by (intro bit_eqI) (auto simp: bit_simps dest: bit_imp_le_length)
  with d show ?thesis by simp
qed

lemma last_index:
  assumes "0 < n" "n < 5"
  shows "unat (push_bit (5 - n) (v::32 word) AND 0x1f) = push_bit (5 - n) (take_bit n (unat v))"
proof -
  have "unat (push_bit (5 - n) v AND 0x1f) = take_bit 5 (unat (push_bit (5 - n) v))"
    unfolding mask5 by (simp add: unsigned_take_bit_eq flip: take_bit_eq_mask)
  also have "\<dots> = push_bit (5 - n) (take_bit n (unat v))"
    using assms by (intro bit_eqI) (auto simp: bit_simps)
  finally show ?thesis .
qed

text \<open>The value of a list of bits.\<close>

lemma foldl_bits_acc:
  "foldl (\<lambda>n b. 2 * n + of_bool b) a ys
     = a * 2 ^ length ys + foldl (\<lambda>n b. 2 * n + of_bool b) (0::nat) ys"
proof (induction ys rule: rev_induct)
  case Nil
  show ?case by simp
next
  case (snoc y ys)
  show ?case using snoc.IH by (simp add: algebra_simps)
qed

lemma bl_val_append: "bl_val (xs @ ys) = push_bit (length ys) (bl_val xs) + bl_val ys"
  unfolding bl_val_def push_bit_eq_mult foldl_append
  by (rule foldl_bits_acc)

lemma bl_val_less: "bl_val xs < 2 ^ length xs"
proof (induction xs rule: rev_induct)
  case Nil
  show ?case by (simp add: bl_val_def)
next
  case (snoc x xs)
  then show ?case
    by (cases x) (simp_all add: bl_val_append push_bit_eq_mult bl_val_def)
qed

lemma bl_val_Cons: "bl_val (b # xs) = of_bool b * 2 ^ length xs + bl_val xs"
  using bl_val_append [of "[b]" xs] by (simp add: bl_val_def push_bit_eq_mult)

lemma bl_val_pad: "bl_val (xs @ replicate k False) = push_bit k (bl_val xs)"
proof -
  have "bl_val (replicate k False) = 0"
    by (induction k) (simp_all add: bl_val_def)
  then show ?thesis by (simp add: bl_val_append)
qed

lemma bl_val_bits_word:
  "bl_val (map (\<lambda>i. bit (w::'a::len word) (n - 1 - i)) [0..<n]) = take_bit n (unat w)"
proof (induction n)
  case 0
  show ?case by (simp add: bl_val_def)
next
  case (Suc n)
  have "map (\<lambda>i. bit w (Suc n - 1 - i)) [0..<Suc n]
          = bit w n # map (\<lambda>i. bit w (n - 1 - i)) [0..<n]"
    by (simp add: upt_conv_Cons map_Suc_upt [symmetric] del: upt_Suc)
  then show ?case
    using Suc.IH by (simp add: bl_val_Cons take_bit_Suc_from_most bit_unsigned_iff)
qed

lemma bl_val_byte_bits: "bl_val (byte_bits b) = unat b"
proof -
  have "bl_val (byte_bits b) = take_bit 8 (unat b)"
    using bl_val_bits_word [of b 8] by (simp add: byte_bits_def)
  also have "\<dots> = unat b"
    by (rule take_bit_nat_eq_self) (use unsigned_less [of b] in simp)
  finally show ?thesis .
qed

lemma length_byte_bits: "length (byte_bits b) = 8"
  by (simp add: byte_bits_def)

lemma length_bits_of_bytes: "length (bits_of_bytes bs) = 8 * length bs"
  by (induction bs) (simp_all add: bits_of_bytes_def length_byte_bits)

lemma bits_of_bytes_Cons: "bits_of_bytes (b # bs) = byte_bits b @ bits_of_bytes bs"
  by (simp add: bits_of_bytes_def)

text \<open>
  The pending bits: when the low \<open>n\<close> bits of \<open>x\<close> are the list \<open>p\<close>, its first \<open>k\<close>
  bits are the top of them and the others stay pending.
\<close>

lemma pending_split:
  assumes "length p = n" "take_bit n (x::nat) = bl_val p" "k \<le> n"
  shows "take_bit (n - k) x = bl_val (drop k p)"
    and "take_bit k (drop_bit (n - k) x) = bl_val (take k p)"
proof -
  let ?a = "bl_val (take k p)" and ?b = "bl_val (drop k p)"
  have len: "length (drop k p) = n - k" using assms by simp
  have b: "?b < 2 ^ (n - k)" using bl_val_less [of "drop k p"] len by simp
  have "bl_val p = push_bit (n - k) ?a + ?b"
    using bl_val_append [of "take k p" "drop k p"] len by simp
  then have x: "take_bit n x = ?a * 2 ^ (n - k) + ?b"
    using assms by (simp add: push_bit_eq_mult)
  have "take_bit (n - k) x = take_bit (n - k) (take_bit n x)"
    by simp
  also have "\<dots> = ?b"
    unfolding x using b by (simp add: take_bit_eq_mod)
  finally show "take_bit (n - k) x = ?b" .
  have "take_bit k (drop_bit (n - k) x) = drop_bit (n - k) (take_bit n x)"
    using assms by (simp add: take_bit_drop_bit)
  also have "\<dots> = ?a"
    unfolding x using b by (simp add: drop_bit_eq_div)
  finally show "take_bit k (drop_bit (n - k) x) = ?a" .
qed

lemma groups5_Nil: "groups5 [] = []"
  by (simp add: groups5.simps)

lemma groups5_full: "5 \<le> length bs \<Longrightarrow> groups5 bs = take 5 bs # groups5 (drop 5 bs)"
  by (subst groups5.simps) auto

lemma groups5_short:
  "bs \<noteq> [] \<Longrightarrow> length bs < 5 \<Longrightarrow> groups5 bs = [bs @ replicate (5 - length bs) False]"
  by (subst groups5.simps) simp

lemma groups5_append:
  "5 dvd length xs \<Longrightarrow> groups5 (xs @ ys) = groups5 xs @ groups5 ys"
proof (induction xs rule: groups5.induct)
  case (1 bs)
  show ?case
  proof (cases "bs = []")
    case True
    then show ?thesis by (simp add: groups5_Nil)
  next
    case False
    with "1.prems" have len: "5 \<le> length bs"
      by (auto dest: dvd_imp_le)
    then have d: "5 dvd length (drop 5 bs)"
      using "1.prems" by (simp add: dvd_diff_nat)
    have "groups5 (drop 5 bs @ ys) = groups5 (drop 5 bs) @ groups5 ys"
      using "1.IH" False len d by simp
    then show ?thesis
      using len by (simp add: groups5_full)
  qed
qed

lemma alphabet_same: "base32Chars = rfc4648_lower"
  by (simp add: base32Chars_def rfc4648_lower_def)

lemma emit5_groups:
  assumes "length p = bits" "bits \<le> 31" "take_bit bits (unat v) = bl_val p"
  shows "emit5 bits v out =
           (bits mod 5,
            out @ map (\<lambda>g. rfc4648_lower ! bl_val g) (groups5 (take (bits - bits mod 5) p)))"
  using assms
proof (induction bits v out arbitrary: p rule: emit5.induct)
  case (1 bits v out)
  show ?case
  proof (cases "5 \<le> bits")
    case False
    then show ?thesis
      by (subst emit5.simps) (simp add: groups5_Nil)
  next
    case True
    let ?r = "bits mod 5"
    have r: "?r = (bits - 5) mod 5" using True by (simp add: le_mod_geq)
    have idx: "unat (signed_drop_bit (bits - 5) v AND 0x1f) = bl_val (take 5 p)"
      using sym_index [of "bits - 5" v] pending_split(2) [of p bits "unat v" 5] "1.prems" True
      by simp
    have inv: "take_bit (bits - 5) (unat v) = bl_val (drop 5 p)"
      using pending_split(1) [of p bits "unat v" 5] "1.prems" True by simp
    have ih: "emit5 (bits - 5) v (out @ [base32Chars ! bl_val (take 5 p)]) =
            ((bits - 5) mod 5, (out @ [base32Chars ! bl_val (take 5 p)]) @
               map (\<lambda>g. rfc4648_lower ! bl_val g)
                 (groups5 (take (bits - 5 - (bits - 5) mod 5) (drop 5 p))))"
      using "1.IH" [of "drop 5 p"] True "1.prems" inv idx by simp
    have rle: "?r \<le> bits - 5" using True r by (metis mod_less_eq_dividend)
    have g: "groups5 (take (bits - ?r) p) = take 5 p # groups5 (take (bits - 5 - ?r) (drop 5 p))"
    proof -
      have "5 \<le> length (take (bits - ?r) p)" using "1.prems" True rle by simp
      then have "groups5 (take (bits - ?r) p)
              = take 5 (take (bits - ?r) p) # groups5 (drop 5 (take (bits - ?r) p))"
        by (rule groups5_full)
      moreover have "take 5 (take (bits - ?r) p) = take 5 p"
        using True rle by (simp add: min_def)
      moreover have "drop 5 (take (bits - ?r) p) = take (bits - 5 - ?r) (drop 5 p)"
        using True rle by (simp add: drop_take add.commute)
      ultimately show ?thesis by simp
    qed
    have step: "emit5 bits v out = emit5 (bits - 5) v (out @ [base32Chars ! bl_val (take 5 p)])"
      using True idx by (subst emit5.simps) simp
    show ?thesis
      unfolding step ih g by (simp add: r [symmetric] alphabet_same)
  qed
qed

lemma mod5_skip: "5 dvd k \<Longrightarrow> (k + n) mod 5 = n mod (5::nat)"
  by (auto elim: dvdE)

lemma take_past_prefix:
  "length xs = k \<Longrightarrow> r \<le> length ys \<Longrightarrow>
     take (k + length ys - r) (xs @ ys) = xs @ take (length ys - r) ys"
  by simp

lemma drop_past_prefix:
  "length xs = k \<Longrightarrow> r \<le> length ys \<Longrightarrow>
     drop (k + length ys - r) (xs @ ys) = drop (length ys - r) ys"
  by simp

text \<open>
  The invariant of the outer loop: \<open>p\<close> is the list of bits read and not yet written,
  fewer than five, held in the low bits of \<open>value\<close>.
\<close>

lemma encode_loop_groups:
  assumes "length p = bits" "bits < 5" "take_bit bits (unat v) = bl_val p"
    and "encode_loop bs bits v out = (bits', v', out')"
  shows "bits' = length (p @ bits_of_bytes bs) mod 5
       \<and> out' = out @ map (\<lambda>g. rfc4648_lower ! bl_val g)
                    (groups5 (take (length (p @ bits_of_bytes bs) - bits') (p @ bits_of_bytes bs)))
       \<and> take_bit bits' (unat v') =
            bl_val (drop (length (p @ bits_of_bytes bs) - bits') (p @ bits_of_bytes bs))"
  using assms
proof (induction bs arbitrary: p bits v out)
  case Nil
  then show ?case by (auto simp: bits_of_bytes_def groups5_Nil)
next
  case (Cons b bs)
  let ?v1 = "push_bit 8 v OR ucast b"
  let ?T1 = "p @ byte_bits b"
  let ?n1 = "bits + 8"
  let ?r1 = "?n1 mod 5"
  let ?k = "?n1 - ?r1"
  let ?sym = "\<lambda>g. rfc4648_lower ! bl_val g"
  have len1: "length ?T1 = ?n1" using Cons.prems(1) by (simp add: length_byte_bits)
  have inv1: "take_bit ?n1 (unat ?v1) = bl_val ?T1"
    using shift_in [of bits v b] Cons.prems(2,3)
    by (simp add: bl_val_append length_byte_bits bl_val_byte_bits)
  have em: "emit5 ?n1 ?v1 out = (?r1, out @ map ?sym (groups5 (take ?k ?T1)))"
    using emit5_groups [OF len1 _ inv1] Cons.prems(2) by simp
  let ?p1 = "drop ?k ?T1"
  have lp1: "length ?p1 = ?r1" using len1 by simp
  have r1: "?r1 < 5" by simp
  have invp1: "take_bit ?r1 (unat ?v1) = bl_val ?p1"
    using pending_split(1) [OF len1 inv1, of ?k] by simp
  have loop: "encode_loop bs ?r1 ?v1 (out @ map ?sym (groups5 (take ?k ?T1))) = (bits', v', out')"
    using Cons.prems(4) em by simp
  note ih = Cons.IH [OF lp1 r1 invp1 loop]
  let ?T' = "?p1 @ bits_of_bytes bs"
  let ?T = "p @ bits_of_bytes (b # bs)"
  have T: "?T = take ?k ?T1 @ ?T'"
  proof -
    have "?T = ?T1 @ bits_of_bytes bs" by (simp add: bits_of_bytes_Cons)
    also have "?T1 = take ?k ?T1 @ ?p1" by (simp only: append_take_drop_id)
    finally show ?thesis by (simp only: append_assoc)
  qed
  have lk: "length (take ?k ?T1) = ?k" using len1 by simp
  have dk: "5 dvd ?k" by (simp add: dvd_minus_mod)
  have b': "bits' = length ?T' mod 5" using ih by simp
  have lenT: "length ?T = ?k + length ?T'" by (subst T) (simp only: length_append lk)
  have m: "length ?T mod 5 = length ?T' mod 5"
    unfolding lenT using dk by (rule mod5_skip)
  have le: "bits' \<le> length ?T'" unfolding b' by (rule mod_less_eq_dividend)
  have tk: "take (length ?T - bits') ?T = take ?k ?T1 @ take (length ?T' - bits') ?T'"
    unfolding lenT by (subst T) (rule take_past_prefix [OF lk le])
  have dr: "drop (length ?T - bits') ?T = drop (length ?T' - bits') ?T'"
    unfolding lenT by (subst T) (rule drop_past_prefix [OF lk le])
  have g: "groups5 (take (length ?T - bits') ?T)
         = groups5 (take ?k ?T1) @ groups5 (take (length ?T' - bits') ?T')"
    unfolding tk by (rule groups5_append) (simp only: lk dk)
  have c1: "bits' = length ?T mod 5"
    by (simp only: b' m)
  have "out' = (out @ map ?sym (groups5 (take ?k ?T1))) @
                 map ?sym (groups5 (take (length ?T' - bits') ?T'))"
    using ih by blast
  then have c2: "out' = out @ map ?sym (groups5 (take (length ?T - bits') ?T))"
    by (simp only: g map_append append_assoc)
  have "take_bit bits' (unat v') = bl_val (drop (length ?T' - bits') ?T')"
    using ih by blast
  then have c3: "take_bit bits' (unat v') = bl_val (drop (length ?T - bits') ?T)"
    by (simp only: dr)
  from c1 c2 c3 show ?case by (intro conjI)
qed

lemma base32_encode_refines: "base32_encode bs = CHR ''b'' # base32_spec bs"
proof -
  obtain bits v out where loop: "encode_loop bs 0 0 ''b'' = (bits, v, out)"
    by (cases "encode_loop bs 0 0 ''b''") auto
  let ?T = "bits_of_bytes bs"
  let ?sym = "\<lambda>g. rfc4648_lower ! bl_val g"
  have all: "bits = length ([] @ ?T) mod 5
       \<and> out = ''b'' @ map ?sym (groups5 (take (length ([] @ ?T) - bits) ([] @ ?T)))
       \<and> take_bit bits (unat v) = bl_val (drop (length ([] @ ?T) - bits) ([] @ ?T))"
    by (rule encode_loop_groups [where p = "[]" and bits = 0 and v = 0, OF _ _ _ loop])
       (simp_all add: bl_val_def)
  have bits: "bits = length ?T mod 5"
    and out: "out = ''b'' @ map ?sym (groups5 (take (length ?T - bits) ?T))"
    and inv: "take_bit bits (unat v) = bl_val (drop (length ?T - bits) ?T)"
    using all [unfolded append_Nil] by blast+
  let ?k = "length ?T - bits"
  have kle: "bits \<le> length ?T" unfolding bits by (rule mod_less_eq_dividend)
  have lt: "length (take ?k ?T) = ?k" by simp
  have "5 dvd length ?T - length ?T mod 5" by (rule dvd_minus_mod)
  then have "5 dvd ?k" by (simp only: bits [symmetric])
  then have dk: "5 dvd length (take ?k ?T)" by (simp only: lt)
  have split: "groups5 ?T = groups5 (take ?k ?T) @ groups5 (drop ?k ?T)"
    using groups5_append [OF dk, of "drop ?k ?T"] by (simp only: append_take_drop_id)
  have ld: "length (drop ?k ?T) = bits" using kle by simp
  have b5: "bits < 5" unfolding bits by simp
  show ?thesis
  proof (cases "bits > 0")
    case False
    then have "groups5 (drop ?k ?T) = []" using ld by (simp add: groups5_Nil)
    then have "groups5 ?T = groups5 (take ?k ?T)" using split by simp
    then have "base32_spec bs = map ?sym (groups5 (take ?k ?T))"
      by (simp only: base32_spec_def)
    moreover have "base32_encode bs = out"
      using False by (simp add: base32_encode_def loop)
    ultimately show ?thesis
      by (simp only: out append_Cons append_Nil)
  next
    case True
    let ?last = "drop ?k ?T @ replicate (5 - bits) False"
    have ne: "drop ?k ?T \<noteq> []" using ld True by auto
    have "length (drop ?k ?T) < 5" using b5 by (simp only: ld)
    from groups5_short [OF ne this] have "groups5 (drop ?k ?T) = [?last]"
      by (simp only: ld)
    then have "groups5 ?T = groups5 (take ?k ?T) @ [?last]" using split by simp
    then have spec: "base32_spec bs = map ?sym (groups5 (take ?k ?T)) @ [?sym ?last]"
      by (simp only: base32_spec_def map_append list.map)
    have "unat (push_bit (5 - bits) v AND 0x1f) = bl_val ?last"
      using last_index [OF True b5, of v] by (simp only: inv bl_val_pad)
    then have "base32_encode bs = out @ [?sym ?last]"
      using True by (simp add: base32_encode_def loop alphabet_same)
    then show ?thesis
      by (simp only: spec out append_Cons append_Nil)
  qed
qed

subsection \<open>The identifier of a file\<close>

lemma byte_of_nat_mod: "(of_nat (x mod 256) :: byte) = of_nat x"
  by (simp add: word_of_nat_eq_iff take_bit_eq_mod)

lemma big_endian_snoc: "big_endian (Suc k) n = big_endian k (n div 256) @ [of_nat n]"
  by (simp add: byte_of_nat_mod)

lemma big_endian_8:
  "big_endian 8 n =
     [of_nat (n div 2 ^ 56), of_nat (n div 2 ^ 48), of_nat (n div 2 ^ 40),
      of_nat (n div 2 ^ 32), of_nat (n div 2 ^ 24), of_nat (n div 2 ^ 16),
      of_nat (n div 2 ^ 8), of_nat n]"
proof -
  have e: "(8::nat) = Suc (Suc (Suc (Suc (Suc (Suc (Suc (Suc 0)))))))"
    by simp
  have "big_endian 8 n =
     [of_nat (n div 256 div 256 div 256 div 256 div 256 div 256 div 256),
      of_nat (n div 256 div 256 div 256 div 256 div 256 div 256),
      of_nat (n div 256 div 256 div 256 div 256 div 256),
      of_nat (n div 256 div 256 div 256 div 256),
      of_nat (n div 256 div 256 div 256),
      of_nat (n div 256 div 256),
      of_nat (n div 256), of_nat n]"
    by (simp only: e big_endian_snoc big_endian.simps(1) append_Nil append_Cons)
  then show ?thesis
    by (simp add: div_mult2_eq [symmetric])
qed

lemma writeBigUInt64BE_spec: "n < 2 ^ 64 \<Longrightarrow> writeBigUInt64BE n = Inr (big_endian 8 n)"
  by (simp only: writeBigUInt64BE_def big_endian_8 if_True)

lemma computeMidHash256Sync_eq:
  assumes "fs fp = Some content" "length content < 2 ^ 64"
  shows "computeMidHash256Sync sha fs fp = Inr (cid_spec sha content)"
proof (cases "length content \<le> SAMPLE_SIZE")
  case True
  then have "sample_spec content = content"
    by (simp add: sample_spec_def SAMPLE_SIZE_def)
  with True show ?thesis
    using assms
    by (simp add: computeMidHash256Sync_def writeBigUInt64BE_spec readSync_def Let_def
        MIDHASH_VARINT_def base32_encode_refines cid_spec_def cid_structure_spec_def)
next
  case False
  then have "sample_spec content
               = take SAMPLE_SIZE (drop ((length content - SAMPLE_SIZE) div 2) content)"
    by (simp add: sample_spec_def SAMPLE_SIZE_def)
  with False show ?thesis
    using assms
    by (simp add: computeMidHash256Sync_def writeBigUInt64BE_spec readSync_def Let_def
        MIDHASH_VARINT_def base32_encode_refines cid_spec_def cid_structure_spec_def)
qed

text \<open>
  Claim C1. For every file that exists, whose length \<open>L\<close> is a safe integer,
  \<^verbatim>\<open>computeMidHash256Sync\<close> returns the character \<open>b\<close> followed by the lowercase
  RFC 4648 base32 encoding without padding (five bits at a time, most significant first, the
  last shorter group shifted left) of the bytes \<open>01 80 20 80 20 20\<close> followed by the
  SHA-256 digest of the 8-byte big-endian encoding of \<open>L\<close> and the sample: the whole file
  when \<open>L \<le> 1048576\<close>, otherwise the 1048576 bytes from offset
  \<open>(L - 1048576) div 2\<close>. With a digest of 32 bytes the encoded sequence has 38 bytes.
\<close>

theorem computeMidHash256Sync_spec:
  assumes "fs fp = Some content" and "length content \<le> MAX_SAFE_INTEGER"
  shows "computeMidHash256Sync sha fs fp
           = Inr (CHR ''b'' # base32_spec
                   ([0x01, 0x80, 0x20, 0x80, 0x20, 0x20]
                      @ sha (big_endian 8 (length content)
                                 @ (if length content \<le> 1048576 then content
                                    else take 1048576
                                           (drop ((length content - 1048576) div 2) content)))))"
proof -
  have "length content < 2 ^ 64"
    using assms(2) by (simp add: MAX_SAFE_INTEGER_def)
  with assms(1) have "computeMidHash256Sync sha fs fp = Inr (cid_spec sha content)"
    by (rule computeMidHash256Sync_eq)
  then show ?thesis
    by (simp only: cid_spec_def cid_structure_spec_def sample_spec_def)
qed

text \<open>
  The theorem at a file of three bytes, hashed whole, and at a file of 1048578 bytes, of
  which the 1048576 bytes from offset 1 are hashed.
\<close>

theorem computeMidHash256Sync_spec_witness:
  "[''/output/a.srt'' \<mapsto> [0x31, 0x0a, 0x30]] ''/output/a.srt'' = Some [0x31, 0x0a, 0x30]
   \<and> length [0x31, 0x0a, 0x30 :: byte] \<le> MAX_SAFE_INTEGER
   \<and> computeMidHash256Sync toy_digest [''/output/a.srt'' \<mapsto> [0x31, 0x0a, 0x30]] ''/output/a.srt''
       = Inr (CHR ''b'' # base32_spec ([0x01, 0x80, 0x20, 0x80, 0x20, 0x20]
               @ toy_digest (big_endian 8 (length [0x31, 0x0a, 0x30 :: byte])
                              @ [0x31, 0x0a, 0x30])))
   \<and> [''/output/big.srt'' \<mapsto> replicate 1048578 0x20] ''/output/big.srt''
       = Some (replicate 1048578 0x20)
   \<and> length (replicate 1048578 (0x20 :: byte)) \<le> MAX_SAFE_INTEGER
   \<and> computeMidHash256Sync toy_digest
         [''/output/big.srt'' \<mapsto> replicate 1048578 0x20] ''/output/big.srt''
       = Inr (CHR ''b'' # base32_spec ([0x01, 0x80, 0x20, 0x80, 0x20, 0x20]
               @ toy_digest (big_endian 8 1048578 @ replicate 1048576 0x20)))"
  using computeMidHash256Sync_spec
          [of "[''/output/a.srt'' \<mapsto> [0x31, 0x0a, 0x30]]" "''/output/a.srt''"
              "[0x31, 0x0a, 0x30]" toy_digest]
        computeMidHash256Sync_spec
          [of "[''/output/big.srt'' \<mapsto> replicate 1048578 0x20]" "''/output/big.srt''"
              "replicate 1048578 0x20" toy_digest]
  by (simp add: MAX_SAFE_INTEGER_def)

subsection \<open>The identifier as a function of length and window\<close>

lemma byte_bits_inj: "byte_bits a = byte_bits b \<Longrightarrow> a = b"
proof -
  assume "byte_bits a = byte_bits b"
  then have "bl_val (byte_bits a) = bl_val (byte_bits b)" by simp
  then have "unat a = unat b" by (simp only: bl_val_byte_bits)
  then show "a = b" by (rule word_unat_eq_iff [THEN iffD2])
qed

lemma bits_of_bytes_inj:
  "length xs = length ys \<Longrightarrow> bits_of_bytes xs = bits_of_bytes ys \<Longrightarrow> xs = ys"
proof (induction xs ys rule: list_induct2)
  case Nil
  show ?case by simp
next
  case (Cons x xs y ys)
  from Cons.prems have "byte_bits x @ bits_of_bytes xs = byte_bits y @ bits_of_bytes ys"
    by (simp only: bits_of_bytes_Cons)
  then have "byte_bits x = byte_bits y \<and> bits_of_bytes xs = bits_of_bytes ys"
    by (simp add: length_byte_bits)
  then show ?case using Cons.IH byte_bits_inj by blast
qed

lemma concat_groups5:
  "concat (groups5 bs) = bs @ replicate ((5 - length bs mod 5) mod 5) False"
proof (induction bs rule: groups5.induct)
  case (1 bs)
  show ?case
  proof (cases "bs = []")
    case True
    then show ?thesis by (simp add: groups5_Nil)
  next
    case ne: False
    show ?thesis
    proof (cases "length bs < 5")
      case True
      then show ?thesis using ne by (simp add: groups5_short)
    next
      case False
      then have len: "5 \<le> length bs" by simp
      have m: "length (drop 5 bs) mod 5 = length bs mod 5"
        using len by (simp add: le_mod_geq)
      have "concat (groups5 bs) = take 5 bs @ concat (groups5 (drop 5 bs))"
        using len by (simp add: groups5_full)
      also have "\<dots> = take 5 bs @ drop 5 bs @ replicate ((5 - length bs mod 5) mod 5) False"
        using "1.IH" [OF ne False] by (simp only: m)
      finally show ?thesis by simp
    qed
  qed
qed

lemma groups5_inj:
  assumes "length xs = length ys" "groups5 xs = groups5 ys"
  shows "xs = ys"
proof -
  have "xs @ replicate ((5 - length xs mod 5) mod 5) False
          = ys @ replicate ((5 - length ys mod 5) mod 5) False"
    using assms(2) concat_groups5 [of xs] concat_groups5 [of ys] by simp
  then show ?thesis using assms(1) by simp
qed

lemma groups5_length: "g \<in> set (groups5 bs) \<Longrightarrow> length g = 5"
proof (induction bs rule: groups5.induct)
  case (1 bs)
  show ?case
  proof (cases "bs = []")
    case True
    then show ?thesis using "1.prems" by (simp add: groups5_Nil)
  next
    case ne: False
    show ?thesis
    proof (cases "length bs < 5")
      case True
      then show ?thesis using ne "1.prems" by (simp add: groups5_short)
    next
      case False
      then have "g = take 5 bs \<or> g \<in> set (groups5 (drop 5 bs))"
        using "1.prems" by (simp add: groups5_full)
      then show ?thesis using "1.IH" [OF ne False] False by auto
    qed
  qed
qed

lemma bl_val_inj: "length xs = length ys \<Longrightarrow> bl_val xs = bl_val ys \<Longrightarrow> xs = ys"
proof (induction xs ys rule: list_induct2)
  case Nil
  show ?case by simp
next
  case (Cons x xs y ys)
  have lx: "bl_val xs < 2 ^ length xs" and ly: "bl_val ys < 2 ^ length xs"
    using bl_val_less [of xs] bl_val_less [of ys] Cons.hyps by simp_all
  have e: "of_bool x * 2 ^ length xs + bl_val xs = of_bool y * 2 ^ length xs + bl_val ys"
    using Cons.prems Cons.hyps by (simp add: bl_val_Cons)
  have "x = y \<and> bl_val xs = bl_val ys"
    using e lx ly by (cases x; cases y) simp_all
  then show ?case using Cons.IH by simp
qed

lemma rfc4648_lower_inj:
  "i < 32 \<Longrightarrow> j < 32 \<Longrightarrow> rfc4648_lower ! i = rfc4648_lower ! j \<Longrightarrow> i = j"
proof -
  have d: "distinct rfc4648_lower" by (simp add: rfc4648_lower_def)
  have l: "length rfc4648_lower = 32" by (simp add: rfc4648_lower_def)
  show "i < 32 \<Longrightarrow> j < 32 \<Longrightarrow> rfc4648_lower ! i = rfc4648_lower ! j \<Longrightarrow> i = j"
    using d l by (simp add: nth_eq_iff_index_eq)
qed

lemma symbols_inj:
  assumes "\<forall>g \<in> set gs. length g = 5" "\<forall>h \<in> set hs. length h = 5"
    and "map (\<lambda>g. rfc4648_lower ! bl_val g) gs = map (\<lambda>g. rfc4648_lower ! bl_val g) hs"
  shows "gs = hs"
proof -
  have len: "length gs = length hs" using assms(3) by (rule map_eq_imp_length_eq)
  show ?thesis
    using len assms
  proof (induction gs hs rule: list_induct2)
    case Nil
    show ?case by simp
  next
    case (Cons g gs h hs)
    have lg: "length g = 5" and lh: "length h = 5" using Cons.prems by simp_all
    have "bl_val g < 32" "bl_val h < 32"
      using bl_val_less [of g] bl_val_less [of h] lg lh by simp_all
    moreover have "rfc4648_lower ! bl_val g = rfc4648_lower ! bl_val h"
      using Cons.prems(3) by simp
    ultimately have "bl_val g = bl_val h" by (rule rfc4648_lower_inj)
    then have "g = h" using lg lh by (intro bl_val_inj) simp_all
    moreover have "gs = hs" using Cons.IH Cons.prems by simp
    ultimately show ?case by simp
  qed
qed

lemma base32_spec_inj:
  assumes "length xs = length ys" "base32_spec xs = base32_spec ys"
  shows "xs = ys"
proof -
  have "groups5 (bits_of_bytes xs) = groups5 (bits_of_bytes ys)"
    using assms(2) unfolding base32_spec_def
    by (intro symbols_inj) (auto dest: groups5_length)
  then have "bits_of_bytes xs = bits_of_bytes ys"
    using assms(1) by (intro groups5_inj) (simp_all add: length_bits_of_bytes)
  then show ?thesis using assms(1) by (rule bits_of_bytes_inj [rotated])
qed

lemma cid_spec_eq_iff:
  assumes "length (sha (hash_input_spec f)) = length (sha (hash_input_spec g))"
  shows "cid_spec sha f = cid_spec sha g
           \<longleftrightarrow> sha (hash_input_spec f) = sha (hash_input_spec g)"
proof
  assume "cid_spec sha f = cid_spec sha g"
  then have "base32_spec (cid_structure_spec sha f) = base32_spec (cid_structure_spec sha g)"
    by (simp add: cid_spec_def)
  moreover have "length (cid_structure_spec sha f) = length (cid_structure_spec sha g)"
    using assms by (simp add: cid_structure_spec_def hash_input_spec_def)
  ultimately have "cid_structure_spec sha f = cid_structure_spec sha g"
    by (intro base32_spec_inj)
  then show "sha (hash_input_spec f) = sha (hash_input_spec g)"
    by (simp add: cid_structure_spec_def hash_input_spec_def)
next
  assume "sha (hash_input_spec f) = sha (hash_input_spec g)"
  then show "cid_spec sha f = cid_spec sha g"
    by (simp add: cid_spec_def cid_structure_spec_def hash_input_spec_def)
qed

lemma length_big_endian: "length (big_endian k n) = k"
  by (induction k arbitrary: n) simp_all

lemma sample_window_nth:
  assumes "1048576 < length f" "i < 1048576"
  shows "sample_spec f ! i = f ! ((length f - 1048576) div 2 + i)"
  using assms by (simp add: sample_spec_def)

lemma length_sample_window:
  assumes "1048576 < length f"
  shows "length (sample_spec f) = 1048576"
  using assms by (simp add: sample_spec_def)

lemma sample_window_eq_iff:
  assumes "1048576 < length f" "length f = length g"
  shows "sample_spec f = sample_spec g \<longleftrightarrow> (\<forall>i. in_window f i \<longrightarrow> f ! i = g ! i)"
proof
  assume e: "sample_spec f = sample_spec g"
  show "\<forall>i. in_window f i \<longrightarrow> f ! i = g ! i"
  proof (intro allI impI)
    fix i
    assume w: "in_window f i"
    let ?off = "(length f - 1048576) div 2"
    from w have j: "i - ?off < 1048576" and i: "i = ?off + (i - ?off)"
      unfolding in_window_def by linarith+
    have "f ! i = sample_spec f ! (i - ?off)"
      using sample_window_nth [OF assms(1) j] i by simp
    also have "\<dots> = sample_spec g ! (i - ?off)" by (simp only: e)
    also have "\<dots> = g ! i"
      using sample_window_nth [of g "i - ?off"] assms j i by simp
    finally show "f ! i = g ! i" .
  qed
next
  assume a: "\<forall>i. in_window f i \<longrightarrow> f ! i = g ! i"
  show "sample_spec f = sample_spec g"
  proof (rule nth_equalityI)
    show "length (sample_spec f) = length (sample_spec g)"
      using assms by (simp add: length_sample_window)
  next
    fix i
    assume "i < length (sample_spec f)"
    then have i: "i < 1048576" using assms(1) by (simp add: length_sample_window)
    then have "in_window f ((length f - 1048576) div 2 + i)" by (simp add: in_window_def)
    with a have "f ! ((length f - 1048576) div 2 + i) = g ! ((length f - 1048576) div 2 + i)"
      by blast
    then show "sample_spec f ! i = sample_spec g ! i"
      using sample_window_nth [OF assms(1) i] sample_window_nth [of g i] assms i by simp
  qed
qed

lemma hash_input_eq_iff:
  assumes "length f = length g"
  shows "hash_input_spec f = hash_input_spec g \<longleftrightarrow> sample_spec f = sample_spec g"
  using assms by (simp add: hash_input_spec_def)

lemma computeMidHash256Sync_safe:
  assumes "fs p = Some f" "length f \<le> MAX_SAFE_INTEGER"
  shows "computeMidHash256Sync sha fs p = Inr (cid_spec sha f)"
  using assms by (intro computeMidHash256Sync_eq) (simp_all add: MAX_SAFE_INTEGER_def)

text \<open>
  The identifier is a function of the pair (length, sample): two files of the same length
  with the same sampled bytes have the same identifier, whatever their paths and the file
  systems they are in. For a file longer than 1 MiB, a file of the same length that agrees
  with it inside the centred window has the same identifier. A file of the same length
  that differs at a position inside the window has a different hash input, and its
  identifier differs exactly when the two digests differ: the prefix and the base32
  encoding lose nothing. Whether the digests of SHA-256 differ there is left open, and
  with it the last part of claim C4.
\<close>

lemma identifier_of_length_and_window:
  assumes "fs p = Some f" and "fs' p' = Some g"
    and "length f = length g" and "length f \<le> MAX_SAFE_INTEGER"
  shows "(sample_spec f = sample_spec g \<longrightarrow>
            computeMidHash256Sync sha fs p = computeMidHash256Sync sha fs' p')
       \<and> (1048576 < length f \<and> (\<forall>i. in_window f i \<longrightarrow> f ! i = g ! i) \<longrightarrow>
            computeMidHash256Sync sha fs p = computeMidHash256Sync sha fs' p')
       \<and> (1048576 < length f \<and> (\<exists>i. in_window f i \<and> f ! i \<noteq> g ! i)
            \<and> length (sha (hash_input_spec f)) = length (sha (hash_input_spec g)) \<longrightarrow>
            hash_input_spec f \<noteq> hash_input_spec g
            \<and> (computeMidHash256Sync sha fs p = computeMidHash256Sync sha fs' p'
                 \<longleftrightarrow> sha (hash_input_spec f) = sha (hash_input_spec g)))"
proof -
  have cf: "computeMidHash256Sync sha fs p = Inr (cid_spec sha f)"
    using assms(1,4) by (rule computeMidHash256Sync_safe)
  have cg: "computeMidHash256Sync sha fs' p' = Inr (cid_spec sha g)"
    using assms(2,3,4) by (intro computeMidHash256Sync_safe) simp_all
  have same: "cid_spec sha f = cid_spec sha g" if "sample_spec f = sample_spec g"
    using that assms(3) by (simp add: cid_spec_def cid_structure_spec_def)
  have one: "sample_spec f = sample_spec g \<longrightarrow>
            computeMidHash256Sync sha fs p = computeMidHash256Sync sha fs' p'"
    using same by (simp add: cf cg)
  have two: "1048576 < length f \<and> (\<forall>i. in_window f i \<longrightarrow> f ! i = g ! i) \<longrightarrow>
            computeMidHash256Sync sha fs p = computeMidHash256Sync sha fs' p'"
    using same sample_window_eq_iff [of f g] assms(3) by (simp add: cf cg)
  have three: "1048576 < length f \<and> (\<exists>i. in_window f i \<and> f ! i \<noteq> g ! i)
            \<and> length (sha (hash_input_spec f)) = length (sha (hash_input_spec g)) \<longrightarrow>
            hash_input_spec f \<noteq> hash_input_spec g
            \<and> (computeMidHash256Sync sha fs p = computeMidHash256Sync sha fs' p'
                 \<longleftrightarrow> sha (hash_input_spec f) = sha (hash_input_spec g))"
  proof (intro impI)
    assume h: "1048576 < length f \<and> (\<exists>i. in_window f i \<and> f ! i \<noteq> g ! i)
            \<and> length (sha (hash_input_spec f)) = length (sha (hash_input_spec g))"
    then have "sample_spec f \<noteq> sample_spec g"
      using sample_window_eq_iff [of f g] assms(3) by blast
    then have "hash_input_spec f \<noteq> hash_input_spec g"
      using hash_input_eq_iff [OF assms(3)] by simp
    moreover have "cid_spec sha f = cid_spec sha g
                     \<longleftrightarrow> sha (hash_input_spec f) = sha (hash_input_spec g)"
      using h by (intro cid_spec_eq_iff) simp
    ultimately show "hash_input_spec f \<noteq> hash_input_spec g
            \<and> (computeMidHash256Sync sha fs p = computeMidHash256Sync sha fs' p'
                 \<longleftrightarrow> sha (hash_input_spec f) = sha (hash_input_spec g))"
      by (simp add: cf cg)
  qed
  from one two three show ?thesis by (intro conjI)
qed

subsection \<open>parseSubtitleStreams\<close>

lemma json_streams_loop_acc:
  "json_streams_loop xs k acc = acc @ json_streams_loop xs k []"
proof (induction xs arbitrary: k acc)
  case Nil
  show ?case by simp
next
  case (Cons x xs)
  show ?case
  proof (cases x)
    case None
    then show ?thesis by simp
  next
    case (Some stream)
    show ?thesis
    proof (cases "codec_type stream = Some ''subtitle''")
      case True
      then show ?thesis
        using Cons.IH [of "k + 1" "acc @ [s]" for s] Cons.IH [of "k + 1" "[s]" for s] Some
        by simp
    next
      case False
      then show ?thesis using Cons.IH [of k acc] Some by simp
    qed
  qed
qed

lemma json_streams_loop_index:
  "map index (json_streams_loop xs k []) = [k..<k + length (json_streams_loop xs k [])]"
proof (induction xs arbitrary: k)
  case Nil
  show ?case by simp
next
  case (Cons x xs)
  show ?case
  proof (cases x)
    case None
    then show ?thesis by simp
  next
    case (Some stream)
    show ?thesis
    proof (cases "codec_type stream = Some ''subtitle''")
      case True
      let ?n = "length (json_streams_loop xs (k + 1) [])"
      have u: "[k..<k + Suc ?n] = k # [k + 1..<k + 1 + ?n]"
        by (subst upt_rec) simp
      have "json_streams_loop (x # xs) k [] =
              \<lparr>index = k, codec = or_else (codec_name stream) ''unknown'',
                language = (case tags stream of None \<Rightarrow> None | Some t \<Rightarrow> tag_language t),
                title = (case tags stream of None \<Rightarrow> None | Some t \<Rightarrow> tag_title t)\<rparr>
              # json_streams_loop xs (k + 1) []"
        using True Some json_streams_loop_acc [of xs "k + 1" "[s]" for s] by simp
      then show ?thesis
        using Cons.IH [of "k + 1"] by (simp only: list.map length_Cons u SubtitleStream.select_convs)
    next
      case False
      then show ?thesis using Cons.IH [of k] Some by simp
    qed
  qed
qed

lemma json_streams_loop_length:
  "length (json_streams_loop xs k [])
     = length (filter is_subtitle_entry (takeWhile (\<lambda>e. e \<noteq> None) xs))"
proof (induction xs arbitrary: k)
  case Nil
  show ?case by simp
next
  case (Cons x xs)
  show ?case
  proof (cases x)
    case None
    then show ?thesis by simp
  next
    case (Some stream)
    then show ?thesis
      using Cons.IH [of "k + 1"] Cons.IH [of k] json_streams_loop_acc [of xs "k + 1" "[s]" for s]
      by (simp add: is_subtitle_entry_def)
  qed
qed

lemma fallback_loop_index:
  "map index (fallback_loop m i acc)
     = map index acc @ filter (\<lambda>j. truthy (m (subtitle_key j ''codec''))) [i..<20]"
proof (induction m i acc rule: fallback_loop.induct)
  case (1 m i acc)
  show ?case
  proof (cases "i < 20")
    case False
    then show ?thesis by (subst fallback_loop.simps) simp
  next
    case True
    then have u: "[i..<20] = i # [i + 1..<20]" by (simp add: upt_conv_Cons)
    show ?thesis
    proof (cases "truthy (m (subtitle_key i ''codec''))")
      case t: True
      show ?thesis
        using "1.IH"(1) [OF True t] True t
        by (subst fallback_loop.simps) (simp add: u)
    next
      case f: False
      show ?thesis
        using "1.IH"(2) [OF True f] True f
        by (subst fallback_loop.simps) (simp add: u)
    qed
  qed
qed

lemma fallback_loop_codec:
  "s \<in> set (fallback_loop m i acc) \<Longrightarrow> s \<notin> set acc \<Longrightarrow>
     m (subtitle_key (index s) ''codec'') = Some (codec s) \<and> codec s \<noteq> []
     \<and> language s = m (subtitle_key (index s) ''language'')
     \<and> title s = m (subtitle_key (index s) ''title'')"
proof (induction m i acc rule: fallback_loop.induct)
  case (1 m i acc)
  show ?case
  proof (cases "i < 20")
    case False
    then show ?thesis using "1.prems" by (subst (asm) fallback_loop.simps) simp
  next
    case True
    show ?thesis
    proof (cases "truthy (m (subtitle_key i ''codec''))")
      case t: True
      then obtain c where c: "m (subtitle_key i ''codec'') = Some c" "c \<noteq> []"
        by (cases "m (subtitle_key i ''codec'')") auto
      let ?new = "\<lparr>index = i, codec = or_else (m (subtitle_key i ''codec'')) [],
                    language = m (subtitle_key i ''language''),
                    title = m (subtitle_key i ''title'')\<rparr>"
      have mem: "s \<in> set (fallback_loop m (i + 1) (acc @ [?new]))"
        using "1.prems"(1) True t by (subst (asm) fallback_loop.simps) simp
      show ?thesis
      proof (cases "s = ?new")
        case True
        then show ?thesis using c by simp
      next
        case False
        then have "s \<notin> set (acc @ [?new])" using "1.prems"(2) by simp
        from "1.IH"(1) [OF True t mem this] show ?thesis .
      qed
    next
      case f: False
      have mem: "s \<in> set (fallback_loop m (i + 1) acc)"
        using "1.prems"(1) True f by (subst (asm) fallback_loop.simps) simp
      from "1.IH"(2) [OF True f mem "1.prems"(2)] show ?thesis .
    qed
  qed
qed

text \<open>
  Claim C9, as amended. The classifier keeps the entries marked as subtitle streams. Under
  the JSON list, when it yields a stream, the result is that list's subtitle entries (up to
  the first null entry) and the \<open>k\<close>-th returned stream has index \<open>k\<close>. Under the
  indexed fields, the returned streams are those of the keys \<open>subtitle_i_codec\<close> with
  \<open>i < 20\<close> that hold a non-empty codec, in increasing \<open>i\<close>, and each carries the
  number \<open>i\<close> of its key as index: contiguous from 0 only when no lower key is missing.
\<close>

theorem parseSubtitleStreams_indices:
  "(json_path_streams jp m \<noteq> [] \<longrightarrow>
      parseSubtitleStreams jp m = json_path_streams jp m
      \<and> map index (parseSubtitleStreams jp m) = [0..<length (parseSubtitleStreams jp m)])
   \<and> (json_path_streams jp m = [] \<longrightarrow>
      map index (parseSubtitleStreams jp m)
        = filter (\<lambda>i. truthy (m (subtitle_key i ''codec''))) [0..<20]
      \<and> (\<forall>s \<in> set (parseSubtitleStreams jp m).
            m (subtitle_key (index s) ''codec'') = Some (codec s)))
   \<and> (\<forall>allStreams. truthy (m ''streams'')
          \<and> jp (or_else (m ''streams'') []) = Some allStreams \<longrightarrow>
        length (json_path_streams jp m)
          = length (filter is_subtitle_entry (takeWhile (\<lambda>e. e \<noteq> None) allStreams)))"
proof -
  have p: "parseSubtitleStreams jp m =
             (if json_path_streams jp m = [] then fallback_loop m 0 []
              else json_path_streams jp m)"
    by (simp add: parseSubtitleStreams_def Let_def)
  have j: "map index (json_path_streams jp m) = [0..<length (json_path_streams jp m)]"
    using json_streams_loop_index [of _ 0]
    by (simp add: json_path_streams_def split: option.splits)
  have k: "\<forall>allStreams. truthy (m ''streams'')
          \<and> jp (or_else (m ''streams'') []) = Some allStreams \<longrightarrow>
        length (json_path_streams jp m)
          = length (filter is_subtitle_entry (takeWhile (\<lambda>e. e \<noteq> None) allStreams))"
    using json_streams_loop_length [of _ 0] by (simp add: json_path_streams_def)
  have "(json_path_streams jp m \<noteq> [] \<longrightarrow>
      parseSubtitleStreams jp m = json_path_streams jp m
      \<and> map index (parseSubtitleStreams jp m) = [0..<length (parseSubtitleStreams jp m)])
   \<and> (json_path_streams jp m = [] \<longrightarrow>
      map index (parseSubtitleStreams jp m)
        = filter (\<lambda>i. truthy (m (subtitle_key i ''codec''))) [0..<20]
      \<and> (\<forall>s \<in> set (parseSubtitleStreams jp m).
            m (subtitle_key (index s) ''codec'') = Some (codec s)))"
    using j fallback_loop_index [of m 0 "[]"] fallback_loop_codec [of _ m 0 "[]"]
    by (auto simp: p)
  with k show ?thesis by (intro conjI) blast+
qed

text \<open>
  Claim C9 as stated fails under the fallback: with only \<open>subtitle_1_codec\<close> present,
  the one returned stream has index 1, not 0.
\<close>

theorem parseSubtitleStreams_contiguous_counterexample:
  "map index (parseSubtitleStreams (\<lambda>s. None) [''subtitle_1_codec'' \<mapsto> ''subrip''])
     \<noteq> [0..<length (parseSubtitleStreams (\<lambda>s. None) [''subtitle_1_codec'' \<mapsto> ''subrip''])]"
  by (simp add: parseSubtitleStreams_def json_path_streams_def fallback_loop.simps
      subtitle_key_def show_nat.simps digit_chars_def)

subsection \<open>process\<close>

lemma skipped_world:
  "skipped request why w =
     w\<lparr>trace := trace w @ [SendCallback \<lparr>payload_taskId = taskId request, status = Skipped,
                                           reason = Some why, error = None\<rparr>]\<rparr>"
  by (simp add: skipped_def sendCallback_def emit_def)

text \<open>
  Claim C3, as amended. When the file type is not \<open>video\<close>, or \<open>extractedSubtitles\<close> is
  recorded with a non-empty value and \<open>forceRecompute\<close> is off, or no subtitle stream is
  parsed, or every parsed stream has a codec of \<open>UNSUPPORTED_SUBTITLE_CODECS\<close>, the run
  changes the world by one event only: the callback with status \<open>skipped\<close> and the reason
  of the first of these conditions that holds. The files, the clock and the timers are as
  before, so the tool is spawned zero times and no file or directory is written or
  removed.
\<close>

theorem process_skipped:
  assumes "meta request ''fileType'' \<noteq> Some ''video''
         \<or> (truthy (meta request ''extractedSubtitles'') \<and> \<not> forceRecompute cfg)
         \<or> parsed_streams env request = []
         \<or> (\<forall>s \<in> set (parsed_streams env request). codec s \<in> UNSUPPORTED_SUBTITLE_CODECS)"
  shows "process env cfg request w =
           w\<lparr>trace := trace w @
                [SendCallback
                   \<lparr>payload_taskId = taskId request, status = Skipped,
                    reason = Some
                      (if meta request ''fileType'' \<noteq> Some ''video''
                       then ''Not a video file''
                       else if truthy (meta request ''extractedSubtitles'')
                               \<and> \<not> forceRecompute cfg
                       then ''Subtitles already extracted''
                       else if parsed_streams env request = []
                       then ''No subtitle streams found''
                       else ''Only image-based subtitles (cannot convert to text)''),
                    error = None\<rparr>]\<rparr>"
proof -
  let ?streams = "parsed_streams env request"
  let ?why = "if meta request ''fileType'' \<noteq> Some ''video''
                       then ''Not a video file''
                       else if truthy (meta request ''extractedSubtitles'')
                               \<and> \<not> forceRecompute cfg
                       then ''Subtitles already extracted''
                       else if parsed_streams env request = []
                       then ''No subtitle streams found''
                       else ''Only image-based subtitles (cannot convert to text)''"
  have "process env cfg request w = skipped request ?why w"
  proof (cases "meta request ''fileType'' \<noteq> Some ''video''")
    case True
    then show ?thesis
      by (simp add: process_def)
  next
    case video: False
    show ?thesis
    proof (cases "truthy (meta request ''extractedSubtitles'') \<and> \<not> forceRecompute cfg")
      case True
      with video show ?thesis
        by (simp add: process_def)
    next
      case fresh: False
      show ?thesis
      proof (cases "?streams = []")
        case True
        with video fresh show ?thesis
          by (auto simp: process_def parsed_streams_def)
      next
        case some: False
        with video fresh assms
        have "\<forall>s \<in> set ?streams. codec s \<in> UNSUPPORTED_SUBTITLE_CODECS"
          by blast
        then have "filter (\<lambda>s. codec s \<notin> UNSUPPORTED_SUBTITLE_CODECS) ?streams = []"
          by (simp add: filter_empty_conv)
        with video fresh some show ?thesis
          by (auto simp: process_def Let_def parsed_streams_def)
      qed
    qed
  qed
  then show ?thesis
    by (simp only: skipped_world)
qed

lemma fast_path_step:
  assumes "existsSync w (outputPath_of env cfg st ys vc sub)" "\<not> forceRecompute cfg"
  shows "process_stream env cfg vc ip st ys sub (c, l, w) =
           (case computeMidHash256Sync (sha256 env) (files w) (outputPath_of env cfg st ys vc sub) of
              Inr x \<Rightarrow> Inr (c @ [x], push_language sub l, emit (found_of cfg vc st ys sub) w)
            | Inl e \<Rightarrow> Inr (c, l, emit (found_of cfg vc st ys sub) w))"
  using assms
  by (simp add: process_stream_def outputPath_of_def found_of_def Let_def emit_def
      split: sum.splits)

lemma extractSubtitle_raises:
  "extractSubtitle env cfg ip outp idx c w = Inl message \<longleftrightarrow>
     fst (ffmpeg env (ffmpeg_args ip idx (outputCodec_of cfg) outp) (files w))
       = SpawnThrows message"
proof -
  obtain outcome fs' where
    f: "ffmpeg env (ffmpeg_args ip idx (outputCodec_of cfg) outp) (files w) = (outcome, fs')"
    by (cases "ffmpeg env (ffmpeg_args ip idx (outputCodec_of cfg) outp) (files w)")
  show ?thesis
    by (cases outcome) (simp_all add: extractSubtitle_def Let_def f split: option.splits)
qed

lemma extractSubtitle_trace:
  assumes "extractSubtitle env cfg ip outp idx c w = Inr (ok, w1)"
  shows "\<exists>rest. trace w1
             = trace w @ Spawn (ffmpeg_args ip idx (outputCodec_of cfg) outp) # rest
         \<and> (\<forall>x \<in> set rest. \<not> is_attempt x \<and> (\<forall>a b c. x \<noteq> AddToSet a b c)
                               \<and> (\<forall>p. x \<noteq> SendCallback p))"
proof -
  obtain outcome fs' where
    f: "ffmpeg env (ffmpeg_args ip idx (outputCodec_of cfg) outp) (files w) = (outcome, fs')"
    by (cases "ffmpeg env (ffmpeg_args ip idx (outputCodec_of cfg) outp) (files w)")
  show ?thesis
    using assms
    by (cases outcome)
       (auto simp: extractSubtitle_def Let_def f emit_def split: option.splits if_splits)
qed

lemma fresh_path_step:
  assumes "\<not> (existsSync w (outputPath_of env cfg st ys vc sub) \<and> \<not> forceRecompute cfg)"
  shows "(\<exists>message. process_stream env cfg vc ip st ys sub (c, l, w) = Inl (message, w)
            \<and> extractSubtitle env cfg ip (outputPath_of env cfg st ys vc sub)
                (index sub) (codec sub) w = Inl message)
       \<or> (\<exists>c' l' w' rest.
            process_stream env cfg vc ip st ys sub (c, l, w) = Inr (c', l', w')
            \<and> trace w' = trace w @ spawn_of env cfg vc ip st ys sub # rest
            \<and> (\<forall>x \<in> set rest. \<not> is_attempt x \<and> (\<forall>p. x \<noteq> SendCallback p))
            \<and> ((\<exists>a b c. AddToSet a b c \<in> set rest) \<longrightarrow>
                 (\<exists>w1. extractSubtitle env cfg ip (outputPath_of env cfg st ys vc sub)
                          (index sub) (codec sub) w = Inr (True, w1))))"
proof -
  let ?op = "outputPath_of env cfg st ys vc sub"
  show ?thesis
  proof (cases "extractSubtitle env cfg ip ?op (index sub) (codec sub) w")
    case (Inl message)
    then show ?thesis
      using assms by (auto simp: process_stream_def outputPath_of_def Let_def)
  next
    case (Inr r)
    obtain ok w1 where r: "r = (ok, w1)" by (cases r)
    from extractSubtitle_trace [of env cfg ip ?op "index sub" "codec sub" w ok w1] Inr r
    obtain rest where rest: "trace w1 = trace w @ spawn_of env cfg vc ip st ys sub # rest"
        "\<forall>x \<in> set rest. \<not> is_attempt x \<and> (\<forall>a b c. x \<noteq> AddToSet a b c)
                               \<and> (\<forall>p. x \<noteq> SendCallback p)"
      by (auto simp: spawn_of_def)
    show ?thesis
      using assms Inr r rest
      by (auto simp: process_stream_def outputPath_of_def Let_def emit_def
               split: sum.splits)
  qed
qed

lemma callbacks_append: "callbacks (xs @ ys) = callbacks xs @ callbacks ys"
  by (induction xs rule: callbacks.induct) simp_all

lemma callbacks_none: "\<forall>x \<in> set xs. \<forall>p. x \<noteq> SendCallback p \<Longrightarrow> callbacks xs = []"
  by (induction xs rule: callbacks.induct) simp_all

lemma process_stream_attempt:
  "(\<exists>message. process_stream env cfg vc ip st ys sub (c, l, w) = Inl (message, w)
      \<and> extractSubtitle env cfg ip (outputPath_of env cfg st ys vc sub)
          (index sub) (codec sub) w = Inl message)
   \<or> (\<exists>c' l' w' e rest.
        process_stream env cfg vc ip st ys sub (c, l, w) = Inr (c', l', w')
        \<and> trace w' = trace w @ e # rest
        \<and> attempt_of env cfg vc ip st ys e sub
        \<and> (\<forall>x \<in> set rest. \<not> is_attempt x)
        \<and> callbacks rest = [])"
proof (cases "existsSync w (outputPath_of env cfg st ys vc sub) \<and> \<not> forceRecompute cfg")
  case True
  then have "\<exists>c' l'. process_stream env cfg vc ip st ys sub (c, l, w)
               = Inr (c', l', emit (found_of cfg vc st ys sub) w)"
    by (simp add: fast_path_step split: sum.splits)
  then show ?thesis
    by (auto simp: attempt_of_def emit_def)
next
  case False
  from fresh_path_step [OF False, of ip c l]
  show ?thesis
  proof (elim disjE exE conjE)
    fix message
    assume "process_stream env cfg vc ip st ys sub (c, l, w) = Inl (message, w)"
      "extractSubtitle env cfg ip (outputPath_of env cfg st ys vc sub)
         (index sub) (codec sub) w = Inl message"
    then show ?thesis by blast
  next
    fix c' l' w' rest
    assume a: "process_stream env cfg vc ip st ys sub (c, l, w) = Inr (c', l', w')"
      "trace w' = trace w @ spawn_of env cfg vc ip st ys sub # rest"
      "\<forall>x \<in> set rest. \<not> is_attempt x \<and> (\<forall>p. x \<noteq> SendCallback p)"
    then have "callbacks rest = []" by (simp add: callbacks_none)
    with a show ?thesis
      by (auto simp: attempt_of_def)
  qed
qed

text \<open>
  The loop takes up the streams in order, each once, and sends no callback. When it ends
  all of them have been taken up; when an exception leaves it, those before the stream
  for which \<^verbatim>\<open>spawn\<close> raised.
\<close>

lemma process_streams_attempts:
  "\<exists>evs taken.
     trace (result_world (process_streams env cfg vc ip st ys subs (c, l, w))) = trace w @ evs
     \<and> list_all2 (attempt_of env cfg vc ip st ys) (filter is_attempt evs) taken
     \<and> callbacks evs = []
     \<and> (case process_streams env cfg vc ip st ys subs (c, l, w) of
           Inr final \<Rightarrow> taken = subs
         | Inl raised \<Rightarrow> \<exists>s rest. subs = taken @ s # rest)"
proof (induction subs arbitrary: c l w)
  case Nil
  show ?case by (simp add: result_world_def)
next
  case (Cons sub subs)
  from process_stream_attempt [of env cfg vc ip st ys sub c l w]
  show ?case
  proof (elim disjE exE conjE)
    fix message
    assume "process_stream env cfg vc ip st ys sub (c, l, w) = Inl (message, w)"
    then have "process_streams env cfg vc ip st ys (sub # subs) (c, l, w) = Inl (message, w)"
      by simp
    then have "trace (result_world (process_streams env cfg vc ip st ys (sub # subs) (c, l, w)))
                 = trace w @ []
       \<and> list_all2 (attempt_of env cfg vc ip st ys) (filter is_attempt []) []
       \<and> callbacks [] = []
       \<and> (case process_streams env cfg vc ip st ys (sub # subs) (c, l, w) of
           Inr final \<Rightarrow> [] = sub # subs
         | Inl raised \<Rightarrow> \<exists>s rest. sub # subs = [] @ s # rest)"
      by (simp add: result_world_def)
    then show ?thesis by blast
  next
    fix c1 l1 w1 e rest
    assume step: "process_stream env cfg vc ip st ys sub (c, l, w) = Inr (c1, l1, w1)"
      and e: "trace w1 = trace w @ e # rest" "attempt_of env cfg vc ip st ys e sub"
        "\<forall>x \<in> set rest. \<not> is_attempt x" "callbacks rest = []"
    let ?r = "process_streams env cfg vc ip st ys subs (c1, l1, w1)"
    from Cons.IH [of c1 l1 w1]
    obtain evs taken where evs:
        "trace (result_world ?r) = trace w1 @ evs"
        "list_all2 (attempt_of env cfg vc ip st ys) (filter is_attempt evs) taken"
        "callbacks evs = []"
        "case ?r of Inr final \<Rightarrow> taken = subs | Inl raised \<Rightarrow> \<exists>s rest. subs = taken @ s # rest"
      by blast
    have same: "process_streams env cfg vc ip st ys (sub # subs) (c, l, w) = ?r"
      using step by simp
    have att: "is_attempt e"
      using e(2) by (auto simp: attempt_of_def spawn_of_def found_of_def)
    have nc: "callbacks [e] = []"
      using e(2) by (auto simp: attempt_of_def spawn_of_def found_of_def)
    have f: "filter is_attempt (e # rest @ evs) = e # filter is_attempt evs"
      using att e(3) by (simp add: filter_empty_conv [THEN iffD2])
    have t: "trace (result_world ?r) = trace w @ (e # rest @ evs)"
      using evs(1) e(1) by simp
    have a: "list_all2 (attempt_of env cfg vc ip st ys)
               (filter is_attempt (e # rest @ evs)) (sub # taken)"
      unfolding f using e(2) evs(2) by simp
    have cb: "callbacks (e # rest @ evs) = []"
      using nc e(4) evs(3) callbacks_append [of "[e]" "rest @ evs"]
      by (simp add: callbacks_append)
    have d: "case ?r of Inr final \<Rightarrow> sub # taken = sub # subs
             | Inl raised \<Rightarrow> \<exists>s rest. sub # subs = (sub # taken) @ s # rest"
      using evs(4) by (auto split: sum.splits)
    from t a cb d show ?thesis
      unfolding same by blast
  qed
qed


lemma process_stream_raises:
  assumes "process_stream env cfg vc ip st ys sub (c, l, w) = Inl (message, w')"
  shows "\<exists>args fs. fst (ffmpeg env args fs) = SpawnThrows message"
proof -
  from process_stream_attempt [of env cfg vc ip st ys sub c l w] assms
  have "extractSubtitle env cfg ip (outputPath_of env cfg st ys vc sub)
          (index sub) (codec sub) w = Inl message"
    by auto
  then show ?thesis
    unfolding extractSubtitle_raises by blast
qed

lemma process_streams_raises:
  assumes "process_streams env cfg vc ip st ys subs (c, l, w) = Inl (message, w')"
  shows "\<exists>args fs. fst (ffmpeg env args fs) = SpawnThrows message"
  using assms
proof (induction subs arbitrary: c l w)
  case Nil
  then show ?case by simp
next
  case (Cons sub subs)
  show ?case
  proof (cases "process_stream env cfg vc ip st ys sub (c, l, w)")
    case (Inl raised)
    with Cons.prems have "process_stream env cfg vc ip st ys sub (c, l, w) = Inl (message, w')"
      by simp
    then show ?thesis by (rule process_stream_raises)
  next
    case (Inr final)
    obtain c1 l1 w1 where final: "final = (c1, l1, w1)" by (cases final)
    from Cons.prems Inr final
    have "process_streams env cfg vc ip st ys subs (c1, l1, w1) = Inl (message, w')"
      by simp
    then show ?thesis by (rule Cons.IH)
  qed
qed

text \<open>Runs that reach the loop.\<close>

lemma run_reaches_loop:
  assumes "meta request ''fileType'' = Some ''video''"
    and "\<not> (truthy (meta request ''extractedSubtitles'') \<and> \<not> forceRecompute cfg)"
    and "text_streams env request \<noteq> []"
    and "outputDirExists w \<or> mkdirSync_error env = None"
  shows "process env cfg request w =
           (case process_streams env cfg (cid request) (inputPath_of env request)
                   (safeTitle_of request) (yearStr_of request) (text_streams env request)
                   ([], [], if \<not> outputDirExists w
                            then emit (Mkdir PLUGIN_OUTPUT_PATH) (w\<lparr>outputDirExists := True\<rparr>)
                            else w) of
              Inr (extractedCids, extractedLanguages, w2) \<Rightarrow>
                sendCallback \<lparr>payload_taskId = taskId request, status = Completed,
                               reason = None, error = None\<rparr> w2
            | Inl (message, w2) \<Rightarrow>
                sendCallback \<lparr>payload_taskId = taskId request, status = Failed,
                               reason = None, error = Some message\<rparr> w2)"
proof -
  have ne: "parsed_streams env request \<noteq> []"
    using assms(3) by (auto simp: text_streams_def)
  show ?thesis
    using assms ne
    by (auto simp: process_def extract_all_def Let_def text_streams_def parsed_streams_def
                   inputPath_of_def safeTitle_of_def yearStr_of_def)
qed

lemma run_events_loop:
  assumes "meta request ''fileType'' = Some ''video''"
    and "\<not> (truthy (meta request ''extractedSubtitles'') \<and> \<not> forceRecompute cfg)"
    and "text_streams env request \<noteq> []"
    and "outputDirExists w \<or> mkdirSync_error env = None"
  shows "\<exists>evs taken.
           trace (process env cfg request w) = trace w @ evs
           \<and> list_all2 (run_attempt_of env cfg request) (filter is_attempt evs) taken
           \<and> ((taken = text_streams env request
                \<and> callbacks evs =
                     [\<lparr>payload_taskId = taskId request, status = Completed, reason = None,
                       error = None\<rparr>])
               \<or> (\<exists>s rest message.
                     text_streams env request = taken @ s # rest
                     \<and> (\<exists>args fs. fst (ffmpeg env args fs) = SpawnThrows message)
                     \<and> callbacks evs =
                         [\<lparr>payload_taskId = taskId request, status = Failed, reason = None,
                           error = Some message\<rparr>]))"
proof -
  let ?w1 = "if \<not> outputDirExists w
             then emit (Mkdir PLUGIN_OUTPUT_PATH) (w\<lparr>outputDirExists := True\<rparr>) else w"
  let ?ok = "\<lparr>payload_taskId = taskId request, status = Completed, reason = None, error = None\<rparr>"
  let ?r = "process_streams env cfg (cid request) (inputPath_of env request)
                (safeTitle_of request) (yearStr_of request) (text_streams env request)
                ([], [], ?w1)"
  obtain pre where pre: "trace ?w1 = trace w @ pre" "filter is_attempt pre = []" "callbacks pre = []"
    by (cases "outputDirExists w") (auto simp: emit_def)
  from process_streams_attempts [of env cfg "cid request" "inputPath_of env request"
        "safeTitle_of request" "yearStr_of request" "text_streams env request" "[]" "[]" ?w1]
  obtain evs taken where evs: "trace (result_world ?r) = trace ?w1 @ evs"
      "list_all2 (run_attempt_of env cfg request) (filter is_attempt evs) taken"
      "callbacks evs = []"
      "case ?r of Inr final \<Rightarrow> taken = text_streams env request
       | Inl raised \<Rightarrow> \<exists>s rest. text_streams env request = taken @ s # rest"
    unfolding run_attempt_of_def by blast
  note run = run_reaches_loop [OF assms]
  show ?thesis
  proof (cases ?r)
    case (Inr final)
    obtain c l w2 where final: "final = (c, l, w2)" by (cases final)
    have t: "trace (process env cfg request w) = trace w @ (pre @ evs @ [SendCallback ?ok])"
      using run Inr final evs(1) pre(1)
      by (simp add: sendCallback_def emit_def result_world_def)
    have a: "list_all2 (run_attempt_of env cfg request)
               (filter is_attempt (pre @ evs @ [SendCallback ?ok])) taken"
      using evs(2) pre(2) by simp
    have k: "taken = text_streams env request"
      using evs(4) Inr by simp
    have cb: "callbacks (pre @ evs @ [SendCallback ?ok]) = [?ok]"
      using pre(3) evs(3) by (simp add: callbacks_append)
    from t a k cb show ?thesis by blast
  next
    case (Inl raised)
    obtain message w2 where raised: "raised = (message, w2)" by (cases raised)
    let ?ko = "\<lparr>payload_taskId = taskId request, status = Failed, reason = None,
                error = Some message\<rparr>"
    have t: "trace (process env cfg request w) = trace w @ (pre @ evs @ [SendCallback ?ko])"
      using run Inl raised evs(1) pre(1)
      by (simp add: sendCallback_def emit_def result_world_def)
    have a: "list_all2 (run_attempt_of env cfg request)
               (filter is_attempt (pre @ evs @ [SendCallback ?ko])) taken"
      using evs(2) pre(2) by simp
    have k: "\<exists>s rest. text_streams env request = taken @ s # rest"
      using evs(4) Inl by simp
    have th: "\<exists>args fs. fst (ffmpeg env args fs) = SpawnThrows message"
      using Inl raised by (intro process_streams_raises [of env cfg _ _ _ _ _ _ _ _ message w2]) simp
    have cb: "callbacks (pre @ evs @ [SendCallback ?ko]) = [?ko]"
      using pre(3) evs(3) by (simp add: callbacks_append)
    from t a k th cb show ?thesis by blast
  qed
qed

text \<open>Runs that do not reach the loop add one event, a callback.\<close>

lemma run_stops_early:
  assumes "\<not> (meta request ''fileType'' = Some ''video''
            \<and> \<not> (truthy (meta request ''extractedSubtitles'') \<and> \<not> forceRecompute cfg)
            \<and> text_streams env request \<noteq> []
            \<and> (outputDirExists w \<or> mkdirSync_error env = None))"
  shows "\<exists>p. process env cfg request w = sendCallback p w"
proof (cases "meta request ''fileType'' = Some ''video''
            \<and> \<not> (truthy (meta request ''extractedSubtitles'') \<and> \<not> forceRecompute cfg)
            \<and> text_streams env request \<noteq> []")
  case True
  with assms have "\<not> outputDirExists w" "mkdirSync_error env \<noteq> None" by auto
  moreover have "parsed_streams env request \<noteq> []"
    using True by (auto simp: text_streams_def)
  ultimately show ?thesis
    using True
    by (auto simp: process_def extract_all_def Let_def text_streams_def parsed_streams_def)
next
  case False
  then show ?thesis
    by (auto simp: process_def skipped_def Let_def text_streams_def parsed_streams_def)
qed

lemma run_events_trace:
  "trace (process env cfg request w) = trace w @ run_events env cfg request w"
proof (cases "meta request ''fileType'' = Some ''video''
            \<and> \<not> (truthy (meta request ''extractedSubtitles'') \<and> \<not> forceRecompute cfg)
            \<and> text_streams env request \<noteq> []
            \<and> (outputDirExists w \<or> mkdirSync_error env = None)")
  case True
  then show ?thesis
    using run_events_loop [of request cfg env w] by (auto simp: run_events_def)
next
  case False
  then show ?thesis
    using run_stops_early [of request cfg env w]
    by (auto simp: run_events_def sendCallback_def emit_def)
qed

lemma run_attempts:
  "\<exists>taken. list_all2 (run_attempt_of env cfg request)
             (filter is_attempt (run_events env cfg request w)) taken
          \<and> set taken \<subseteq> set (text_streams env request)"
proof (cases "meta request ''fileType'' = Some ''video''
            \<and> \<not> (truthy (meta request ''extractedSubtitles'') \<and> \<not> forceRecompute cfg)
            \<and> text_streams env request \<noteq> []
            \<and> (outputDirExists w \<or> mkdirSync_error env = None)")
  case True
  then have h: "meta request ''fileType'' = Some ''video''"
      "\<not> (truthy (meta request ''extractedSubtitles'') \<and> \<not> forceRecompute cfg)"
      "text_streams env request \<noteq> []"
      "outputDirExists w \<or> mkdirSync_error env = None"
    by simp_all
  from run_events_loop [OF h]
  obtain evs taken where e: "trace (process env cfg request w) = trace w @ evs"
      "list_all2 (run_attempt_of env cfg request) (filter is_attempt evs) taken"
      "taken = text_streams env request
       \<or> (\<exists>s rest. text_streams env request = taken @ s # rest)"
    by (elim exE conjE disjE) blast+
  have "run_events env cfg request w = evs"
    using e(1) by (simp add: run_events_def)
  moreover have "set taken \<subseteq> set (text_streams env request)"
    using e(3) by auto
  ultimately show ?thesis using e(2) by blast
next
  case False
  then have "filter is_attempt (run_events env cfg request w) = []"
    using run_stops_early [of request cfg env w]
    by (auto simp: run_events_def sendCallback_def emit_def)
  then show ?thesis by simp
qed

lemma list_all2_pick_left:
  "list_all2 P xs ys \<Longrightarrow> x \<in> set xs \<Longrightarrow> \<exists>y \<in> set ys. P x y"
  by (induction rule: list_all2_induct) auto

lemma list_all2_pick_right:
  "list_all2 P xs ys \<Longrightarrow> y \<in> set ys \<Longrightarrow> \<exists>x \<in> set xs. P x y"
  by (induction rule: list_all2_induct) auto

text \<open>
  Claim C2, as amended. The filter is a deny-list. Every stream the run takes up (spawns
  the tool for, or finds the output file of) is a parsed stream whose codec is not in the
  unsupported image-based list, so for a stream with such a codec the run spawns nothing.
  In a run that passes the two metadata checks and has its output directory, every parsed
  stream whose codec is not in that list is taken up, also one whose codec is in neither
  list; the one run that does not take them all up is the run that an exception of
  \<^verbatim>\<open>spawn\<close> has ended, with the callback \<open>failed\<close>.
\<close>

theorem deny_list_filtering:
  "(\<forall>e \<in> set (run_events env cfg request w).
      is_attempt e \<longrightarrow>
        (\<exists>s \<in> set (parsed_streams env request).
           codec s \<notin> UNSUPPORTED_SUBTITLE_CODECS \<and> run_attempt_of env cfg request e s))
   \<and> (meta request ''fileType'' = Some ''video''
        \<and> \<not> (truthy (meta request ''extractedSubtitles'') \<and> \<not> forceRecompute cfg)
        \<and> (outputDirExists w \<or> mkdirSync_error env = None) \<longrightarrow>
      (\<forall>s \<in> set (parsed_streams env request).
         codec s \<notin> UNSUPPORTED_SUBTITLE_CODECS \<longrightarrow>
           (\<exists>e \<in> set (run_events env cfg request w). run_attempt_of env cfg request e s))
      \<or> (\<exists>message.
            (\<exists>args fs. fst (ffmpeg env args fs) = SpawnThrows message)
            \<and> callbacks (run_events env cfg request w) =
                [\<lparr>payload_taskId = taskId request, status = Failed, reason = None,
                  error = Some message\<rparr>]))"
proof (intro conjI ballI impI)
  fix e
  assume e: "e \<in> set (run_events env cfg request w)" "is_attempt e"
  then have mem: "e \<in> set (filter is_attempt (run_events env cfg request w))" by simp
  from run_attempts [of env cfg request w]
  obtain taken where t: "list_all2 (run_attempt_of env cfg request)
          (filter is_attempt (run_events env cfg request w)) taken"
      "set taken \<subseteq> set (text_streams env request)"
    by blast
  from list_all2_pick_left [OF t(1) mem] t(2)
  show "\<exists>s \<in> set (parsed_streams env request).
          codec s \<notin> UNSUPPORTED_SUBTITLE_CODECS \<and> run_attempt_of env cfg request e s"
    by (auto simp: text_streams_def)
next
  assume run: "meta request ''fileType'' = Some ''video''
        \<and> \<not> (truthy (meta request ''extractedSubtitles'') \<and> \<not> forceRecompute cfg)
        \<and> (outputDirExists w \<or> mkdirSync_error env = None)"
  show "(\<forall>s \<in> set (parsed_streams env request).
         codec s \<notin> UNSUPPORTED_SUBTITLE_CODECS \<longrightarrow>
           (\<exists>e \<in> set (run_events env cfg request w). run_attempt_of env cfg request e s))
      \<or> (\<exists>message.
            (\<exists>args fs. fst (ffmpeg env args fs) = SpawnThrows message)
            \<and> callbacks (run_events env cfg request w) =
                [\<lparr>payload_taskId = taskId request, status = Failed, reason = None,
                  error = Some message\<rparr>])"
  proof (cases "text_streams env request = []")
    case True
    then show ?thesis by (auto simp: text_streams_def filter_empty_conv)
  next
    case False
    from run have h: "meta request ''fileType'' = Some ''video''"
      "\<not> (truthy (meta request ''extractedSubtitles'') \<and> \<not> forceRecompute cfg)"
      "outputDirExists w \<or> mkdirSync_error env = None"
      by simp_all
    from run_events_loop [OF h(1,2) False h(3)]
    obtain evs taken where e: "trace (process env cfg request w) = trace w @ evs"
      "list_all2 (run_attempt_of env cfg request) (filter is_attempt evs) taken"
      "(taken = text_streams env request
                \<and> callbacks evs =
                     [\<lparr>payload_taskId = taskId request, status = Completed, reason = None,
                       error = None\<rparr>])
               \<or> (\<exists>s rest message.
                     text_streams env request = taken @ s # rest
                     \<and> (\<exists>args fs. fst (ffmpeg env args fs) = SpawnThrows message)
                     \<and> callbacks evs =
                         [\<lparr>payload_taskId = taskId request, status = Failed, reason = None,
                           error = Some message\<rparr>])"
      by blast
    have r: "run_events env cfg request w = evs"
      using e(1) by (simp add: run_events_def)
    from e(3) show ?thesis
    proof
      assume "taken = text_streams env request
                \<and> callbacks evs =
                     [\<lparr>payload_taskId = taskId request, status = Completed, reason = None,
                       error = None\<rparr>]"
      then have all: "list_all2 (run_attempt_of env cfg request)
                   (filter is_attempt (run_events env cfg request w)) (text_streams env request)"
        using e(2) r by simp
      have "\<forall>s \<in> set (parsed_streams env request).
         codec s \<notin> UNSUPPORTED_SUBTITLE_CODECS \<longrightarrow>
           (\<exists>e \<in> set (run_events env cfg request w). run_attempt_of env cfg request e s)"
      proof (intro ballI impI)
        fix s
        assume "s \<in> set (parsed_streams env request)" "codec s \<notin> UNSUPPORTED_SUBTITLE_CODECS"
        then have mem: "s \<in> set (text_streams env request)" by (simp add: text_streams_def)
        from list_all2_pick_right [OF all mem]
        show "\<exists>e \<in> set (run_events env cfg request w). run_attempt_of env cfg request e s"
          by auto
      qed
      then show ?thesis by (rule disjI1)
    next
      assume "\<exists>s rest message.
                     text_streams env request = taken @ s # rest
                     \<and> (\<exists>args fs. fst (ffmpeg env args fs) = SpawnThrows message)
                     \<and> callbacks evs =
                         [\<lparr>payload_taskId = taskId request, status = Failed, reason = None,
                           error = Some message\<rparr>]"
      then show ?thesis unfolding r by blast
    qed
  qed
qed

text \<open>
  When \<^verbatim>\<open>spawn\<close> raises for no arguments, a run that passes the short-circuit checks and
  has its output directory takes up exactly the supported streams, each once and in
  order, whatever ffmpeg, the file system and the metadata client do for each stream, and
  sends one callback, with status \<open>completed\<close>.
\<close>

lemma run_completes_unless_spawn_raises:
  assumes "meta request ''fileType'' = Some ''video''"
    and "\<not> (truthy (meta request ''extractedSubtitles'') \<and> \<not> forceRecompute cfg)"
    and "text_streams env request \<noteq> []"
    and "outputDirExists w \<or> mkdirSync_error env = None"
    and "\<forall>args fs message. fst (ffmpeg env args fs) \<noteq> SpawnThrows message"
  shows "list_all2 (run_attempt_of env cfg request)
           (filter is_attempt (run_events env cfg request w)) (text_streams env request)
       \<and> callbacks (run_events env cfg request w) =
           [\<lparr>payload_taskId = taskId request, status = Completed, reason = None, error = None\<rparr>]"
proof -
  from run_events_loop [OF assms(1-4)]
  obtain evs taken where e0: "trace (process env cfg request w) = trace w @ evs"
      "list_all2 (run_attempt_of env cfg request) (filter is_attempt evs) taken"
      "(taken = text_streams env request
                \<and> callbacks evs =
                     [\<lparr>payload_taskId = taskId request, status = Completed, reason = None,
                       error = None\<rparr>])
               \<or> (\<exists>s rest message.
                     text_streams env request = taken @ s # rest
                     \<and> (\<exists>args fs. fst (ffmpeg env args fs) = SpawnThrows message)
                     \<and> callbacks evs =
                         [\<lparr>payload_taskId = taskId request, status = Failed, reason = None,
                           error = Some message\<rparr>])"
    by blast
  from e0(3) assms(5) have "taken = text_streams env request
                \<and> callbacks evs =
                     [\<lparr>payload_taskId = taskId request, status = Completed, reason = None,
                       error = None\<rparr>]"
    by blast
  with e0(1,2) have e: "trace (process env cfg request w) = trace w @ evs"
      "list_all2 (run_attempt_of env cfg request) (filter is_attempt evs)
         (text_streams env request)"
      "callbacks evs =
         [\<lparr>payload_taskId = taskId request, status = Completed, reason = None, error = None\<rparr>]"
    by simp_all
  have "run_events env cfg request w = evs"
    using e(1) by (simp add: run_events_def)
  with e(2,3) show ?thesis by simp
qed


lemma step_events_trace:
  "trace (result_world (process_stream env cfg vc ip st ys sub (c, l, w)))
     = trace w @ step_events env cfg vc ip st ys sub (c, l, w)"
  using process_stream_attempt [of env cfg vc ip st ys sub c l w]
  by (auto simp: step_events_def result_world_def)


text \<open>
  Claim C5. When the output file of a stream is on disk, with a length that is a safe
  integer, and \<open>forceRecompute\<close> is off, the pass of the loop for that stream spawns
  nothing and leaves the files as they are: it logs that the file exists, computes the
  identifier of the bytes on disk and appends it to \<open>extractedCids\<close>. A second pass on
  the world it leaves appends the same identifier.
\<close>

theorem already_extracted_fast_path:
  assumes "files w (outputPath_of env cfg st ys vc sub) = Some content"
    and "\<not> forceRecompute cfg"
    and "length content \<le> MAX_SAFE_INTEGER"
  shows "process_stream env cfg vc ip st ys sub (cids, langs, w)
           = Inr (cids @ [cid_spec (sha256 env) content], push_language sub langs,
                  w\<lparr>trace := trace w @ [found_of cfg vc st ys sub]\<rparr>)
       \<and> process_stream env cfg vc ip st ys sub
             ([], [], w\<lparr>trace := trace w @ [found_of cfg vc st ys sub]\<rparr>)
           = Inr ([cid_spec (sha256 env) content], push_language sub [],
                  w\<lparr>trace := trace w @ [found_of cfg vc st ys sub, found_of cfg vc st ys sub]\<rparr>)"
proof -
  have len: "length content < 2 ^ 64"
    using assms(3) by (simp add: MAX_SAFE_INTEGER_def)
  have step: "process_stream env cfg vc ip st ys sub (c, l, w')
                = Inr (c @ [cid_spec (sha256 env) content], push_language sub l,
                       w'\<lparr>trace := trace w' @ [found_of cfg vc st ys sub]\<rparr>)"
    if "files w' = files w" for c l w'
  proof -
    have ex: "existsSync w' (outputPath_of env cfg st ys vc sub)"
      using assms(1) that by (simp add: existsSync_def)
    have "computeMidHash256Sync (sha256 env) (files w') (outputPath_of env cfg st ys vc sub)
            = Inr (cid_spec (sha256 env) content)"
      using assms(1) that len by (simp add: computeMidHash256Sync_eq)
    then show ?thesis
      using fast_path_step [OF ex assms(2), of ip c l] by (simp add: emit_def)
  qed
  show ?thesis
    using step [of w cids langs]
      step [of "w\<lparr>trace := trace w @ [found_of cfg vc st ys sub]\<rparr>" "[]" "[]"]
    by simp
qed

text \<open>
  Claim C10. On the already-exists path, the pass of the loop adds one event, the log
  line, so it calls \<open>addToSet\<close> for neither field, while the identifier, when it can be
  computed, is appended to \<open>extractedCids\<close>. A call of \<open>addToSet\<close> in a pass shows that
  the pass was not on that path and that \<open>extractSubtitle\<close> resolved to true.
\<close>

theorem fast_path_no_store_write:
  "(existsSync w (outputPath_of env cfg st ys vc sub) \<and> \<not> forceRecompute cfg \<longrightarrow>
      step_events env cfg vc ip st ys sub (cids, langs, w) = [found_of cfg vc st ys sub]
      \<and> (case computeMidHash256Sync (sha256 env) (files w) (outputPath_of env cfg st ys vc sub) of
            Inr subtitleCid \<Rightarrow>
              (\<exists>langs' w'. process_stream env cfg vc ip st ys sub (cids, langs, w)
                             = Inr (cids @ [subtitleCid], langs', w'))
          | Inl e \<Rightarrow>
              (\<exists>langs' w'. process_stream env cfg vc ip st ys sub (cids, langs, w)
                             = Inr (cids, langs', w'))))
   \<and> (AddToSet v f x \<in> set (step_events env cfg vc ip st ys sub (cids, langs, w)) \<longrightarrow>
        \<not> (existsSync w (outputPath_of env cfg st ys vc sub) \<and> \<not> forceRecompute cfg)
        \<and> (\<exists>w1. extractSubtitle env cfg ip (outputPath_of env cfg st ys vc sub)
                   (index sub) (codec sub) w = Inr (True, w1)))"
proof -
  let ?fast = "existsSync w (outputPath_of env cfg st ys vc sub) \<and> \<not> forceRecompute cfg"
  have fast: "step_events env cfg vc ip st ys sub (cids, langs, w) = [found_of cfg vc st ys sub]
      \<and> (case computeMidHash256Sync (sha256 env) (files w) (outputPath_of env cfg st ys vc sub) of
            Inr subtitleCid \<Rightarrow>
              (\<exists>langs' w'. process_stream env cfg vc ip st ys sub (cids, langs, w)
                             = Inr (cids @ [subtitleCid], langs', w'))
          | Inl e \<Rightarrow>
              (\<exists>langs' w'. process_stream env cfg vc ip st ys sub (cids, langs, w)
                             = Inr (cids, langs', w')))"
    if ?fast
    using that fast_path_step [of w env cfg st ys vc sub ip cids langs]
    by (auto simp: step_events_def result_world_def emit_def split: sum.splits)
  have fresh: "\<not> ?fast \<and> (\<exists>w1. extractSubtitle env cfg ip (outputPath_of env cfg st ys vc sub)
                 (index sub) (codec sub) w = Inr (True, w1))"
    if a: "AddToSet v f x \<in> set (step_events env cfg vc ip st ys sub (cids, langs, w))"
  proof (cases ?fast)
    case True
    with fast a show ?thesis by (auto simp: found_of_def)
  next
    case False
    from fresh_path_step [OF False, of ip cids langs]
    show ?thesis
    proof (elim disjE exE conjE)
      fix message
      assume "process_stream env cfg vc ip st ys sub (cids, langs, w) = Inl (message, w)"
      then have "step_events env cfg vc ip st ys sub (cids, langs, w) = []"
        by (simp add: step_events_def result_world_def)
      with a show ?thesis by simp
    next
      fix c' l' w' rest
      assume r: "process_stream env cfg vc ip st ys sub (cids, langs, w) = Inr (c', l', w')"
        "trace w' = trace w @ spawn_of env cfg vc ip st ys sub # rest"
        "(\<exists>a b c. AddToSet a b c \<in> set rest) \<longrightarrow>
           (\<exists>w1. extractSubtitle env cfg ip (outputPath_of env cfg st ys vc sub)
                    (index sub) (codec sub) w = Inr (True, w1))"
      have "step_events env cfg vc ip st ys sub (cids, langs, w)
              = spawn_of env cfg vc ip st ys sub # rest"
        using r(1,2) by (simp add: step_events_def result_world_def)
      with a have "AddToSet v f x \<in> set rest" by (auto simp: spawn_of_def)
      with r(3) False show ?thesis by blast
    qed
  qed
  from fast fresh show ?thesis by blast
qed

text \<open>
  When a file is accepted: \<open>extractSubtitle\<close> resolves to true exactly when the process
  closes with code 0 before the timer fires and the output file is on disk with more than
  10 bytes.
\<close>

lemma extractSubtitle_accepts_iff:
  "(\<exists>w1. extractSubtitle env cfg ip outp idx c w = Inr (True, w1)) \<longleftrightarrow>
     (\<exists>bytes t.
        fst (ffmpeg env (ffmpeg_args ip idx (outputCodec_of cfg) outp) (files w))
          = Close (Some 0) t
        \<and> t < 120000
        \<and> snd (ffmpeg env (ffmpeg_args ip idx (outputCodec_of cfg) outp) (files w)) outp
            = Some bytes
        \<and> 10 < length bytes)"
proof -
  obtain outcome fs' where
    f: "ffmpeg env (ffmpeg_args ip idx (outputCodec_of cfg) outp) (files w) = (outcome, fs')"
    by (cases "ffmpeg env (ffmpeg_args ip idx (outputCodec_of cfg) outp) (files w)")
  show ?thesis
    by (cases outcome)
       (auto simp: extractSubtitle_def Let_def f split: option.splits if_splits)
qed

subsection \<open>Concrete runs\<close>

text \<open>The definitions that evaluate a run, and the concrete inputs.\<close>

lemmas model_defs = process_def extract_all_def process_stream_def extractSubtitle_def
  parseSubtitleStreams_def json_path_streams_def meta_def skipped_def sendCallback_def emit_def
  existsSync_def createWebDAVClient_def toWebDAVUrl_def WebDAVClient_def outputFilename_of_def
  outputPath_of_def push_language_def ffmpeg_args_def UNSUPPORTED_SUBTITLE_CODECS_def
  PLUGIN_OUTPUT_PATH_def sanitizeFilename_def trim_def is_space_def invalid_chars_def
  subtitle_key_def fallback_loop.simps show_nat.simps digit_chars_def Let_def
  inputPath_of_def safeTitle_of_def yearStr_of_def outputCodec_of_def
  run_events_def step_events_def result_world_def parsed_streams_def text_streams_def

lemmas demo_defs = demo_cfg_def demo_parsed_def demo_env_def demo_request_def
  captions_request_def tool_missing_def tool_first_fails_def tool_first_throws_def
  tool_first_hangs_def empty_world_def audio_request_def bluray_request_def
  blank_request_def extracted_request_def silent_request_def
  eng_stream_def fre_stream_def captions_stream_def eng_path_def rerun_world_def

lemma captions_parsed:
  "parsed_streams (demo_env tool) captions_request = [captions_stream]"
  by (simp add: model_defs demo_defs)

lemma captions_run:
  "run_events (demo_env tool_missing) demo_cfg captions_request empty_world =
     [Spawn [''-y'', ''-hide_banner'', ''-loglevel'', ''error'', ''-probesize'', ''1M'',
             ''-analyzeduration'', ''1M'', ''-i'', ''/files/watch/news.ts'', ''-map'', ''0:s:1'',
             ''-c:s'', ''srt'', ''/output/video[bvideo]_subtitle.1.srt''],
      SetTimeout 120000,
      SendCallback \<lparr>payload_taskId = ''task-2'', status = Completed, reason = None,
                     error = None\<rparr>]"
  by (simp add: model_defs demo_defs)

lemma demo_parsed_streams:
  "parsed_streams (demo_env tool) demo_request =
     [eng_stream,
      \<lparr>index = 1, codec = ''dvd_subtitle'', language = None, title = None\<rparr>,
      fre_stream]"
  by (simp add: model_defs demo_defs)

lemma demo_text_streams:
  "text_streams (demo_env tool) demo_request = [eng_stream, fre_stream]"
  by (simp add: text_streams_def demo_parsed_streams UNSUPPORTED_SUBTITLE_CODECS_def)
     (simp add: demo_defs)

lemma demo_run:
  "run_events (demo_env tool_first_fails) demo_cfg demo_request empty_world =
     [Spawn [''-y'', ''-hide_banner'', ''-loglevel'', ''error'', ''-probesize'', ''1M'',
             ''-analyzeduration'', ''1M'', ''-i'', ''/files/watch/sintel.mkv'', ''-map'',
             ''0:s:0'', ''-c:s'', ''srt'', ''/output/Sintel (2010)[bvideo]_subtitle.eng.srt''],
      SetTimeout 120000,
      Spawn [''-y'', ''-hide_banner'', ''-loglevel'', ''error'', ''-probesize'', ''1M'',
             ''-analyzeduration'', ''1M'', ''-i'', ''/files/watch/sintel.mkv'', ''-map'',
             ''0:s:2'', ''-c:s'', ''srt'', ''/output/Sintel (2010)[bvideo]_subtitle.fre.srt''],
      SetTimeout 120000,
      AddToSet ''bvideo'' ''extractedSubtitles'' (cid_spec toy_digest (replicate 20 0x31)),
      AddToSet ''bvideo'' ''subtitleLanguages'' ''fre'',
      SendCallback \<lparr>payload_taskId = ''task-1'', status = Completed, reason = None,
                     error = None\<rparr>]"
  by (simp add: model_defs demo_defs computeMidHash256Sync_eq)

text \<open>
  Claim C2 as stated fails: \<open>eia_608\<close> is in neither list, and the run spawns ffmpeg for
  the stream that has it.
\<close>

theorem unlisted_codec_counterexample:
  "CODEC_EXTENSION_MAP ''eia_608'' = None
   \<and> ''eia_608'' \<notin> UNSUPPORTED_SUBTITLE_CODECS
   \<and> parsed_streams (demo_env tool_missing) captions_request
       = [\<lparr>index = 1, codec = ''eia_608'', language = None, title = None\<rparr>]
   \<and> run_events (demo_env tool_missing) demo_cfg captions_request empty_world =
     [Spawn [''-y'', ''-hide_banner'', ''-loglevel'', ''error'', ''-probesize'', ''1M'',
             ''-analyzeduration'', ''1M'', ''-i'', ''/files/watch/news.ts'', ''-map'', ''0:s:1'',
             ''-c:s'', ''srt'', ''/output/video[bvideo]_subtitle.1.srt''],
      SetTimeout 120000,
      SendCallback \<lparr>payload_taskId = ''task-2'', status = Completed, reason = None,
                     error = None\<rparr>]"
  using captions_parsed [of tool_missing] captions_run
  by (simp add: CODEC_EXTENSION_MAP_def UNSUPPORTED_SUBTITLE_CODECS_def captions_stream_def)

text \<open>
  Claim C3 as stated fails at its fourth condition and at its second. The one parsed
  stream of the first run has the codec \<open>eia_608\<close>, which is not in the allow-list, so
  the stream is unsupported as the specification classifies it; the run is not skipped:
  it spawns ffmpeg, the output file is written and linked, and the status is
  \<open>completed\<close>. In the second run the field \<^verbatim>\<open>extractedSubtitles\<close> is present, as the empty
  string, and \<open>forceRecompute\<close> is off; the run is not skipped either.
\<close>

theorem unlisted_codec_run_not_skipped:
  "parsed_streams (demo_env tool_first_fails) captions_request = [captions_stream]
   \<and> CODEC_EXTENSION_MAP (codec captions_stream) = None
   \<and> run_events (demo_env tool_first_fails) demo_cfg captions_request empty_world =
       [Spawn [''-y'', ''-hide_banner'', ''-loglevel'', ''error'', ''-probesize'', ''1M'',
               ''-analyzeduration'', ''1M'', ''-i'', ''/files/watch/news.ts'', ''-map'',
               ''0:s:1'', ''-c:s'', ''srt'', ''/output/video[bvideo]_subtitle.1.srt''],
        SetTimeout 120000,
        AddToSet ''bvideo'' ''extractedSubtitles'' (cid_spec toy_digest (replicate 20 0x31)),
        SendCallback \<lparr>payload_taskId = ''task-2'', status = Completed, reason = None,
                       error = None\<rparr>]
   \<and> files (process (demo_env tool_first_fails) demo_cfg captions_request empty_world)
        ''/output/video[bvideo]_subtitle.1.srt'' = Some (replicate 20 0x31)
   \<and> meta blank_request ''extractedSubtitles'' = Some []
   \<and> \<not> forceRecompute demo_cfg
   \<and> run_events (demo_env tool_first_fails) demo_cfg blank_request empty_world =
       [Spawn [''-y'', ''-hide_banner'', ''-loglevel'', ''error'', ''-probesize'', ''1M'',
               ''-analyzeduration'', ''1M'', ''-i'', ''/files/watch/clip.mkv'', ''-map'',
               ''0:s:0'', ''-c:s'', ''srt'', ''/output/video[bvideo]_subtitle.0.srt''],
        SetTimeout 120000,
        SendCallback \<lparr>payload_taskId = ''task-5'', status = Completed, reason = None,
                       error = None\<rparr>]"
proof -
  have a: "parsed_streams (demo_env tool_first_fails) captions_request = [captions_stream]"
    by (rule captions_parsed)
  have b: "CODEC_EXTENSION_MAP (codec captions_stream) = None"
    by (simp add: CODEC_EXTENSION_MAP_def captions_stream_def)
  have c: "run_events (demo_env tool_first_fails) demo_cfg captions_request empty_world =
       [Spawn [''-y'', ''-hide_banner'', ''-loglevel'', ''error'', ''-probesize'', ''1M'',
               ''-analyzeduration'', ''1M'', ''-i'', ''/files/watch/news.ts'', ''-map'',
               ''0:s:1'', ''-c:s'', ''srt'', ''/output/video[bvideo]_subtitle.1.srt''],
        SetTimeout 120000,
        AddToSet ''bvideo'' ''extractedSubtitles'' (cid_spec toy_digest (replicate 20 0x31)),
        SendCallback \<lparr>payload_taskId = ''task-2'', status = Completed, reason = None,
                       error = None\<rparr>]"
    by (simp add: model_defs demo_defs computeMidHash256Sync_eq)
  have d: "files (process (demo_env tool_first_fails) demo_cfg captions_request empty_world)
        ''/output/video[bvideo]_subtitle.1.srt'' = Some (replicate 20 0x31)"
    by (simp add: model_defs demo_defs computeMidHash256Sync_eq)
  have e: "meta blank_request ''extractedSubtitles'' = Some []"
    by (simp add: meta_def blank_request_def)
  have f: "\<not> forceRecompute demo_cfg" by (simp add: demo_cfg_def)
  have g: "run_events (demo_env tool_first_fails) demo_cfg blank_request empty_world =
       [Spawn [''-y'', ''-hide_banner'', ''-loglevel'', ''error'', ''-probesize'', ''1M'',
               ''-analyzeduration'', ''1M'', ''-i'', ''/files/watch/clip.mkv'', ''-map'',
               ''0:s:0'', ''-c:s'', ''srt'', ''/output/video[bvideo]_subtitle.0.srt''],
        SetTimeout 120000,
        SendCallback \<lparr>payload_taskId = ''task-5'', status = Completed, reason = None,
                       error = None\<rparr>]"
    by (simp add: model_defs demo_defs)
  from a b c d e f g show ?thesis by (intro conjI)
qed

text \<open>
  The amended claim C3 on a request that is not a video, on one whose subtitles are
  recorded as extracted, on one without subtitle streams and on one with bitmap subtitles
  only.
\<close>

theorem process_skipped_witness:
  "meta audio_request ''fileType'' \<noteq> Some ''video''
   \<and> process (demo_env tool_first_fails) demo_cfg audio_request empty_world =
       empty_world\<lparr>trace :=
         [SendCallback \<lparr>payload_taskId = ''task-3'', status = Skipped,
                         reason = Some ''Not a video file'', error = None\<rparr>]\<rparr>
   \<and> truthy (meta extracted_request ''extractedSubtitles'')
   \<and> \<not> forceRecompute demo_cfg
   \<and> process (demo_env tool_first_fails) demo_cfg extracted_request empty_world =
       empty_world\<lparr>trace :=
         [SendCallback \<lparr>payload_taskId = ''task-6'', status = Skipped,
                         reason = Some ''Subtitles already extracted'', error = None\<rparr>]\<rparr>
   \<and> parsed_streams (demo_env tool_first_fails) silent_request = []
   \<and> process (demo_env tool_first_fails) demo_cfg silent_request empty_world =
       empty_world\<lparr>trace :=
         [SendCallback \<lparr>payload_taskId = ''task-7'', status = Skipped,
                         reason = Some ''No subtitle streams found'', error = None\<rparr>]\<rparr>
   \<and> parsed_streams (demo_env tool_first_fails) bluray_request \<noteq> []
   \<and> codec ` set (parsed_streams (demo_env tool_first_fails) bluray_request)
         \<subseteq> UNSUPPORTED_SUBTITLE_CODECS
   \<and> process (demo_env tool_first_fails) demo_cfg bluray_request empty_world =
       empty_world\<lparr>trace :=
         [SendCallback \<lparr>payload_taskId = ''task-4'', status = Skipped,
                         reason = Some ''Only image-based subtitles (cannot convert to text)'',
                         error = None\<rparr>]\<rparr>"
proof -
  let ?env = "demo_env tool_first_fails"
  have a: "meta audio_request ''fileType'' \<noteq> Some ''video''"
    by (simp add: meta_def audio_request_def)
  have x: "truthy (meta extracted_request ''extractedSubtitles'')"
      "meta extracted_request ''fileType'' = Some ''video''"
    by (simp_all add: meta_def extracted_request_def)
  have nf: "\<not> forceRecompute demo_cfg" by (simp add: demo_cfg_def)
  have s: "parsed_streams ?env silent_request = []"
      "meta silent_request ''fileType'' = Some ''video''"
      "\<not> truthy (meta silent_request ''extractedSubtitles'')"
    by (simp_all add: model_defs demo_defs)
  have b: "parsed_streams ?env bluray_request =
             [\<lparr>index = 0, codec = ''hdmv_pgs_subtitle'', language = None, title = None\<rparr>,
              \<lparr>index = 1, codec = ''hdmv_pgs_subtitle'', language = None, title = None\<rparr>]"
      "meta bluray_request ''fileType'' = Some ''video''"
      "\<not> truthy (meta bluray_request ''extractedSubtitles'')"
    by (simp_all add: model_defs demo_defs)
  have c: "\<forall>s \<in> set (parsed_streams ?env bluray_request).
             codec s \<in> UNSUPPORTED_SUBTITLE_CODECS"
    by (simp add: b(1) UNSUPPORTED_SUBTITLE_CODECS_def)
  have t: "trace empty_world = []"
    and ids: "taskId audio_request = ''task-3''" "taskId extracted_request = ''task-6''"
      "taskId silent_request = ''task-7''" "taskId bluray_request = ''task-4''"
    by (simp_all add: demo_defs)
  have r1: "process ?env demo_cfg audio_request empty_world =
       empty_world\<lparr>trace :=
         [SendCallback \<lparr>payload_taskId = ''task-3'', status = Skipped,
                         reason = Some ''Not a video file'', error = None\<rparr>]\<rparr>"
    using process_skipped [of audio_request demo_cfg ?env empty_world] a
    by (simp add: t ids)
  have r2: "process ?env demo_cfg extracted_request empty_world =
       empty_world\<lparr>trace :=
         [SendCallback \<lparr>payload_taskId = ''task-6'', status = Skipped,
                         reason = Some ''Subtitles already extracted'', error = None\<rparr>]\<rparr>"
    using process_skipped [of extracted_request demo_cfg ?env empty_world] x nf
    by (simp add: t ids)
  have r3: "process ?env demo_cfg silent_request empty_world =
       empty_world\<lparr>trace :=
         [SendCallback \<lparr>payload_taskId = ''task-7'', status = Skipped,
                         reason = Some ''No subtitle streams found'', error = None\<rparr>]\<rparr>"
    using process_skipped [of silent_request demo_cfg ?env empty_world] s
    by (simp add: t ids)
  have r4: "process ?env demo_cfg bluray_request empty_world =
       empty_world\<lparr>trace :=
         [SendCallback \<lparr>payload_taskId = ''task-4'', status = Skipped,
                         reason = Some ''Only image-based subtitles (cannot convert to text)'',
                         error = None\<rparr>]\<rparr>"
    using process_skipped [of bluray_request demo_cfg ?env empty_world] c b
    by (simp add: t ids)
  have ne: "parsed_streams ?env bluray_request \<noteq> []" by (simp add: b(1))
  have sub: "codec ` set (parsed_streams ?env bluray_request) \<subseteq> UNSUPPORTED_SUBTITLE_CODECS"
    using c by (simp add: image_subset_iff)
  from a r1 x(1) nf r2 s(1) r3 ne sub r4 show ?thesis by (intro conjI)
qed

text \<open>
  The amended claim C2 on the two runs: the spawn for the French stream belongs to a parsed
  stream outside the deny-list, and the \<open>eia_608\<close> stream is taken up.
\<close>

theorem deny_list_filtering_witness:
  "is_attempt (Spawn [''-y'', ''-hide_banner'', ''-loglevel'', ''error'', ''-probesize'', ''1M'',
             ''-analyzeduration'', ''1M'', ''-i'', ''/files/watch/sintel.mkv'', ''-map'',
             ''0:s:2'', ''-c:s'', ''srt'', ''/output/Sintel (2010)[bvideo]_subtitle.fre.srt''])
   \<and> (\<exists>s \<in> set (parsed_streams (demo_env tool_first_fails) demo_request).
         codec s \<notin> UNSUPPORTED_SUBTITLE_CODECS
         \<and> run_attempt_of (demo_env tool_first_fails) demo_cfg demo_request
             (Spawn [''-y'', ''-hide_banner'', ''-loglevel'', ''error'', ''-probesize'', ''1M'',
                ''-analyzeduration'', ''1M'', ''-i'', ''/files/watch/sintel.mkv'', ''-map'',
                ''0:s:2'', ''-c:s'', ''srt'', ''/output/Sintel (2010)[bvideo]_subtitle.fre.srt''])
             s)
   \<and> meta captions_request ''fileType'' = Some ''video''
   \<and> \<not> truthy (meta captions_request ''extractedSubtitles'')
   \<and> outputDirExists empty_world
   \<and> captions_stream \<in> set (parsed_streams (demo_env tool_missing) captions_request)
   \<and> codec captions_stream \<notin> UNSUPPORTED_SUBTITLE_CODECS
   \<and> callbacks (run_events (demo_env tool_missing) demo_cfg captions_request empty_world) =
        [\<lparr>payload_taskId = ''task-2'', status = Completed, reason = None, error = None\<rparr>]
   \<and> (\<exists>e \<in> set (run_events (demo_env tool_missing) demo_cfg captions_request empty_world).
         run_attempt_of (demo_env tool_missing) demo_cfg captions_request e captions_stream)"
proof -
  let ?e = "Spawn [''-y'', ''-hide_banner'', ''-loglevel'', ''error'', ''-probesize'', ''1M'',
             ''-analyzeduration'', ''1M'', ''-i'', ''/files/watch/sintel.mkv'', ''-map'',
             ''0:s:2'', ''-c:s'', ''srt'', ''/output/Sintel (2010)[bvideo]_subtitle.fre.srt'']"
  have e: "?e \<in> set (run_events (demo_env tool_first_fails) demo_cfg demo_request empty_world)"
    by (simp add: demo_run)
  have v: "meta captions_request ''fileType'' = Some ''video''"
    and x: "\<not> truthy (meta captions_request ''extractedSubtitles'')"
    by (simp_all add: meta_def captions_request_def)
  have d: "outputDirExists empty_world" by (simp add: empty_world_def)
  have s: "captions_stream \<in> set (parsed_streams (demo_env tool_missing) captions_request)"
    by (simp add: captions_parsed)
  have c: "codec captions_stream \<notin> UNSUPPORTED_SUBTITLE_CODECS"
    by (simp add: captions_stream_def UNSUPPORTED_SUBTITLE_CODECS_def)
  have cb: "callbacks (run_events (demo_env tool_missing) demo_cfg captions_request empty_world) =
        [\<lparr>payload_taskId = ''task-2'', status = Completed, reason = None, error = None\<rparr>]"
    by (simp add: captions_run)
  note th1 = deny_list_filtering
               [of "demo_env tool_first_fails" demo_cfg demo_request empty_world]
  note th2 = deny_list_filtering
               [of "demo_env tool_missing" demo_cfg captions_request empty_world]
  have p1: "\<exists>s \<in> set (parsed_streams (demo_env tool_first_fails) demo_request).
         codec s \<notin> UNSUPPORTED_SUBTITLE_CODECS
         \<and> run_attempt_of (demo_env tool_first_fails) demo_cfg demo_request ?e s"
    using th1 e by (meson is_attempt.simps(1))
  have nf: "\<not> (\<exists>message.
            (\<exists>args fs. fst (ffmpeg (demo_env tool_missing) args fs) = SpawnThrows message)
            \<and> callbacks (run_events (demo_env tool_missing) demo_cfg captions_request
                           empty_world) =
                [\<lparr>payload_taskId = taskId captions_request, status = Failed, reason = None,
                  error = Some message\<rparr>])"
    by (simp add: cb)
  have p2: "\<exists>e \<in> set (run_events (demo_env tool_missing) demo_cfg captions_request empty_world).
         run_attempt_of (demo_env tool_missing) demo_cfg captions_request e captions_stream"
    using th2 v x d s c nf by blast
  from p1 p2 v x d s c cb show ?thesis by simp
qed

text \<open>Claim C5 on the world where the English output file exists.\<close>

theorem already_extracted_fast_path_witness:
  "files rerun_world
     (outputPath_of (demo_env tool_missing) demo_cfg ''Sintel'' '' (2010)'' ''bvideo'' eng_stream)
     = Some (replicate 20 0x31)
   \<and> \<not> forceRecompute demo_cfg
   \<and> length (replicate 20 (0x31 :: byte)) \<le> MAX_SAFE_INTEGER
   \<and> process_stream (demo_env tool_missing) demo_cfg ''bvideo'' ''/files/watch/sintel.mkv''
        ''Sintel'' '' (2010)'' eng_stream ([], [], rerun_world)
       = Inr ([cid_spec toy_digest (replicate 20 0x31)], [''eng''],
              rerun_world\<lparr>trace :=
                [LogAlreadyExists ''Sintel (2010)[bvideo]_subtitle.eng.srt'']\<rparr>)
   \<and> process_stream (demo_env tool_missing) demo_cfg ''bvideo'' ''/files/watch/sintel.mkv''
        ''Sintel'' '' (2010)'' eng_stream
        ([], [], rerun_world\<lparr>trace :=
            [LogAlreadyExists ''Sintel (2010)[bvideo]_subtitle.eng.srt'']\<rparr>)
       = Inr ([cid_spec toy_digest (replicate 20 0x31)], [''eng''],
              rerun_world\<lparr>trace :=
                [LogAlreadyExists ''Sintel (2010)[bvideo]_subtitle.eng.srt'',
                 LogAlreadyExists ''Sintel (2010)[bvideo]_subtitle.eng.srt'']\<rparr>)"
proof -
  have h1: "files rerun_world
     (outputPath_of (demo_env tool_missing) demo_cfg ''Sintel'' '' (2010)'' ''bvideo'' eng_stream)
     = Some (replicate 20 0x31)"
    by (simp add: model_defs demo_defs)
  have h2: "\<not> forceRecompute demo_cfg" by (simp add: demo_cfg_def)
  have h3: "length (replicate 20 (0x31 :: byte)) \<le> MAX_SAFE_INTEGER"
    by (simp add: MAX_SAFE_INTEGER_def)
  have f: "found_of demo_cfg ''bvideo'' ''Sintel'' '' (2010)'' eng_stream
             = LogAlreadyExists ''Sintel (2010)[bvideo]_subtitle.eng.srt''"
    by (simp add: found_of_def model_defs demo_defs)
  have l: "push_language eng_stream [] = [''eng'']"
    by (simp add: push_language_def eng_stream_def)
  have s: "sha256 (demo_env tool_missing) = toy_digest" by (simp add: demo_env_def)
  have t: "trace rerun_world = []" by (simp add: rerun_world_def)
  from already_extracted_fast_path [OF h1 h2 h3, of "''/files/watch/sintel.mkv''" "[]" "[]"]
    h1 h2 h3
  show ?thesis by (simp add: f l s t)
qed

lemma fre_step:
  "step_events (demo_env tool_first_fails) demo_cfg ''bvideo'' ''/files/watch/sintel.mkv''
      ''Sintel'' '' (2010)'' fre_stream ([], [], empty_world)
     = [Spawn [''-y'', ''-hide_banner'', ''-loglevel'', ''error'', ''-probesize'', ''1M'',
               ''-analyzeduration'', ''1M'', ''-i'', ''/files/watch/sintel.mkv'', ''-map'',
               ''0:s:2'', ''-c:s'', ''srt'', fre_path],
        SetTimeout 120000,
        AddToSet ''bvideo'' ''extractedSubtitles'' (cid_spec toy_digest (replicate 20 0x31)),
        AddToSet ''bvideo'' ''subtitleLanguages'' ''fre'']"
  by (simp add: model_defs demo_defs fre_path_def computeMidHash256Sync_eq)

text \<open>
  Claim C10 on the same world, and on the fresh extraction of the French stream, which
  calls \<open>addToSet\<close>.
\<close>

theorem fast_path_no_store_write_witness:
  "existsSync rerun_world
     (outputPath_of (demo_env tool_missing) demo_cfg ''Sintel'' '' (2010)'' ''bvideo'' eng_stream)
   \<and> \<not> forceRecompute demo_cfg
   \<and> step_events (demo_env tool_missing) demo_cfg ''bvideo'' ''/files/watch/sintel.mkv''
        ''Sintel'' '' (2010)'' eng_stream ([], [], rerun_world)
       = [LogAlreadyExists ''Sintel (2010)[bvideo]_subtitle.eng.srt'']
   \<and> (\<exists>langs' w'.
         process_stream (demo_env tool_missing) demo_cfg ''bvideo''
             ''/files/watch/sintel.mkv'' ''Sintel'' '' (2010)'' eng_stream ([], [], rerun_world)
           = Inr ([cid_spec toy_digest (replicate 20 0x31)], langs', w'))
   \<and> AddToSet ''bvideo'' ''subtitleLanguages'' ''fre''
        \<in> set (step_events (demo_env tool_first_fails) demo_cfg ''bvideo''
                 ''/files/watch/sintel.mkv'' ''Sintel'' '' (2010)'' fre_stream
                 ([], [], empty_world))
   \<and> \<not> existsSync empty_world
          (outputPath_of (demo_env tool_first_fails) demo_cfg ''Sintel'' '' (2010)'' ''bvideo''
             fre_stream)
   \<and> (\<exists>w1. extractSubtitle (demo_env tool_first_fails) demo_cfg ''/files/watch/sintel.mkv''
            (outputPath_of (demo_env tool_first_fails) demo_cfg ''Sintel'' '' (2010)''
               ''bvideo'' fre_stream)
            (index fre_stream) (codec fre_stream) empty_world = Inr (True, w1))"
proof -
  have ex: "existsSync rerun_world
     (outputPath_of (demo_env tool_missing) demo_cfg ''Sintel'' '' (2010)'' ''bvideo'' eng_stream)"
    by (simp add: model_defs demo_defs)
  have nf: "\<not> forceRecompute demo_cfg" by (simp add: demo_cfg_def)
  have cidv: "computeMidHash256Sync (sha256 (demo_env tool_missing)) (files rerun_world)
          (outputPath_of (demo_env tool_missing) demo_cfg ''Sintel'' '' (2010)'' ''bvideo''
             eng_stream)
        = Inr (cid_spec toy_digest (replicate 20 0x31))"
    by (simp add: model_defs demo_defs computeMidHash256Sync_eq)
  have f: "found_of demo_cfg ''bvideo'' ''Sintel'' '' (2010)'' eng_stream
             = LogAlreadyExists ''Sintel (2010)[bvideo]_subtitle.eng.srt''"
    by (simp add: found_of_def model_defs demo_defs)
  have mem: "AddToSet ''bvideo'' ''subtitleLanguages'' ''fre''
        \<in> set (step_events (demo_env tool_first_fails) demo_cfg ''bvideo''
                 ''/files/watch/sintel.mkv'' ''Sintel'' '' (2010)'' fre_stream
                 ([], [], empty_world))"
    by (simp add: fre_step)
  note fast = fast_path_no_store_write
      [of rerun_world "demo_env tool_missing" demo_cfg "''Sintel''" "'' (2010)''" "''bvideo''"
          eng_stream "''/files/watch/sintel.mkv''" "[]" "[]"]
  note fresh = fast_path_no_store_write
      [of empty_world "demo_env tool_first_fails" demo_cfg "''Sintel''" "'' (2010)''"
          "''bvideo''" fre_stream "''/files/watch/sintel.mkv''" "[]" "[]"
          "''bvideo''" "''subtitleLanguages''" "''fre''"]
  have a: "step_events (demo_env tool_missing) demo_cfg ''bvideo'' ''/files/watch/sintel.mkv''
        ''Sintel'' '' (2010)'' eng_stream ([], [], rerun_world)
       = [LogAlreadyExists ''Sintel (2010)[bvideo]_subtitle.eng.srt'']"
    and b: "\<exists>langs' w'.
         process_stream (demo_env tool_missing) demo_cfg ''bvideo''
             ''/files/watch/sintel.mkv'' ''Sintel'' '' (2010)'' eng_stream ([], [], rerun_world)
           = Inr ([cid_spec toy_digest (replicate 20 0x31)], langs', w')"
    using fast ex nf by (simp_all add: cidv f)
  have c: "\<not> existsSync empty_world
          (outputPath_of (demo_env tool_first_fails) demo_cfg ''Sintel'' '' (2010)'' ''bvideo''
             fre_stream)"
    by (simp add: existsSync_def empty_world_def)
  have d: "\<exists>w1. extractSubtitle (demo_env tool_first_fails) demo_cfg ''/files/watch/sintel.mkv''
            (outputPath_of (demo_env tool_first_fails) demo_cfg ''Sintel'' '' (2010)''
               ''bvideo'' fre_stream)
            (index fre_stream) (codec fre_stream) empty_world = Inr (True, w1)"
    using fresh mem by blast
  from ex nf a b mem c d show ?thesis by (intro conjI)
qed

text \<open>
  Claim C6, at the input where the code breaks it. ffmpeg exits with code 1 and leaves
  five bytes at the output path: the stream is failed, but no \<open>Unlink\<close> follows the
  spawn and the file is still there. The next pass for the stream, with \<open>forceRecompute\<close>
  off, finds it and records the identifier of the five bytes as an extracted subtitle.
\<close>

theorem partial_output_left_on_failure:
  "extractSubtitle (demo_env tool_first_fails) demo_cfg ''/files/watch/sintel.mkv''
          eng_path 0 ''subrip'' empty_world
     = Inr (False,
            \<lparr>files = [eng_path \<mapsto> replicate 5 0x31], outputDirExists = True,
             trace = [Spawn [''-y'', ''-hide_banner'', ''-loglevel'', ''error'', ''-probesize'',
                             ''1M'', ''-analyzeduration'', ''1M'', ''-i'',
                             ''/files/watch/sintel.mkv'', ''-map'', ''0:s:0'', ''-c:s'', ''srt'',
                             eng_path],
                      SetTimeout 120000],
             clock = 800, timers = [120000]\<rparr>)
   \<and> process_stream (demo_env tool_first_fails) demo_cfg ''bvideo''
             ''/files/watch/sintel.mkv'' ''Sintel'' '' (2010)'' eng_stream
             ([], [],
              \<lparr>files = [eng_path \<mapsto> replicate 5 0x31], outputDirExists = True,
               trace = [Spawn [''-y'', ''-hide_banner'', ''-loglevel'', ''error'', ''-probesize'',
                               ''1M'', ''-analyzeduration'', ''1M'', ''-i'',
                               ''/files/watch/sintel.mkv'', ''-map'', ''0:s:0'', ''-c:s'', ''srt'',
                               eng_path],
                        SetTimeout 120000],
               clock = 800, timers = [120000]\<rparr>)
     = Inr ([cid_spec toy_digest (replicate 5 0x31)], [''eng''],
            \<lparr>files = [eng_path \<mapsto> replicate 5 0x31], outputDirExists = True,
             trace = [Spawn [''-y'', ''-hide_banner'', ''-loglevel'', ''error'', ''-probesize'',
                             ''1M'', ''-analyzeduration'', ''1M'', ''-i'',
                             ''/files/watch/sintel.mkv'', ''-map'', ''0:s:0'', ''-c:s'', ''srt'',
                             eng_path],
                      SetTimeout 120000,
                      LogAlreadyExists ''Sintel (2010)[bvideo]_subtitle.eng.srt''],
             clock = 800, timers = [120000]\<rparr>)"
proof -
  have a: "extractSubtitle (demo_env tool_first_fails) demo_cfg ''/files/watch/sintel.mkv''
          eng_path 0 ''subrip'' empty_world
     = Inr (False,
            \<lparr>files = [eng_path \<mapsto> replicate 5 0x31], outputDirExists = True,
             trace = [Spawn [''-y'', ''-hide_banner'', ''-loglevel'', ''error'', ''-probesize'',
                             ''1M'', ''-analyzeduration'', ''1M'', ''-i'',
                             ''/files/watch/sintel.mkv'', ''-map'', ''0:s:0'', ''-c:s'', ''srt'',
                             eng_path],
                      SetTimeout 120000],
             clock = 800, timers = [120000]\<rparr>)"
    by (simp add: model_defs demo_defs)
  have b: "process_stream (demo_env tool_first_fails) demo_cfg ''bvideo''
             ''/files/watch/sintel.mkv'' ''Sintel'' '' (2010)'' eng_stream
             ([], [],
              \<lparr>files = [eng_path \<mapsto> replicate 5 0x31], outputDirExists = True,
               trace = [Spawn [''-y'', ''-hide_banner'', ''-loglevel'', ''error'', ''-probesize'',
                               ''1M'', ''-analyzeduration'', ''1M'', ''-i'',
                               ''/files/watch/sintel.mkv'', ''-map'', ''0:s:0'', ''-c:s'', ''srt'',
                               eng_path],
                        SetTimeout 120000],
               clock = 800, timers = [120000]\<rparr>)
     = Inr ([cid_spec toy_digest (replicate 5 0x31)], [''eng''],
            \<lparr>files = [eng_path \<mapsto> replicate 5 0x31], outputDirExists = True,
             trace = [Spawn [''-y'', ''-hide_banner'', ''-loglevel'', ''error'', ''-probesize'',
                             ''1M'', ''-analyzeduration'', ''1M'', ''-i'',
                             ''/files/watch/sintel.mkv'', ''-map'', ''0:s:0'', ''-c:s'', ''srt'',
                             eng_path],
                      SetTimeout 120000,
                      LogAlreadyExists ''Sintel (2010)[bvideo]_subtitle.eng.srt''],
             clock = 800, timers = [120000]\<rparr>)"
    by (simp add: model_defs demo_defs computeMidHash256Sync_eq)
  from a b show ?thesis by (intro conjI)
qed

text \<open>
  Claim C8, at the input where the code breaks it. The run has two supported streams and
  \<^verbatim>\<open>spawn\<close> raises for the first: the promise is rejected, the exception leaves the loop
  and reaches the outer \<^verbatim>\<open>catch\<close>. The run sends the callback \<open>failed\<close> and nothing
  else: the French stream is never taken up, although a pass of the loop for it alone
  extracts and links it.
\<close>

theorem spawn_exception_aborts_run:
  "text_streams (demo_env tool_first_throws) demo_request = [eng_stream, fre_stream]
   \<and> extractSubtitle (demo_env tool_first_throws) demo_cfg ''/files/watch/sintel.mkv''
        eng_path 0 ''subrip'' empty_world = Inl ''spawn ENOMEM''
   \<and> run_events (demo_env tool_first_throws) demo_cfg demo_request empty_world =
       [SendCallback \<lparr>payload_taskId = ''task-1'', status = Failed, reason = None,
                       error = Some ''spawn ENOMEM''\<rparr>]
   \<and> step_events (demo_env tool_first_throws) demo_cfg ''bvideo'' ''/files/watch/sintel.mkv''
        ''Sintel'' '' (2010)'' fre_stream ([], [], empty_world)
       = [Spawn [''-y'', ''-hide_banner'', ''-loglevel'', ''error'', ''-probesize'', ''1M'',
                 ''-analyzeduration'', ''1M'', ''-i'', ''/files/watch/sintel.mkv'', ''-map'',
                 ''0:s:2'', ''-c:s'', ''srt'', fre_path],
          SetTimeout 120000,
          AddToSet ''bvideo'' ''extractedSubtitles'' (cid_spec toy_digest (replicate 20 0x31)),
          AddToSet ''bvideo'' ''subtitleLanguages'' ''fre'']"
proof -
  have a: "text_streams (demo_env tool_first_throws) demo_request = [eng_stream, fre_stream]"
    by (rule demo_text_streams)
  have b: "extractSubtitle (demo_env tool_first_throws) demo_cfg ''/files/watch/sintel.mkv''
        eng_path 0 ''subrip'' empty_world = Inl ''spawn ENOMEM''"
    by (simp add: model_defs demo_defs)
  have c: "run_events (demo_env tool_first_throws) demo_cfg demo_request empty_world =
       [SendCallback \<lparr>payload_taskId = ''task-1'', status = Failed, reason = None,
                       error = Some ''spawn ENOMEM''\<rparr>]"
    by (simp add: model_defs demo_defs)
  have d: "step_events (demo_env tool_first_throws) demo_cfg ''bvideo'' ''/files/watch/sintel.mkv''
        ''Sintel'' '' (2010)'' fre_stream ([], [], empty_world)
       = [Spawn [''-y'', ''-hide_banner'', ''-loglevel'', ''error'', ''-probesize'', ''1M'',
                 ''-analyzeduration'', ''1M'', ''-i'', ''/files/watch/sintel.mkv'', ''-map'',
                 ''0:s:2'', ''-c:s'', ''srt'', fre_path],
          SetTimeout 120000,
          AddToSet ''bvideo'' ''extractedSubtitles'' (cid_spec toy_digest (replicate 20 0x31)),
          AddToSet ''bvideo'' ''subtitleLanguages'' ''fre'']"
    by (simp add: model_defs demo_defs fre_path_def computeMidHash256Sync_eq)
  from a b c d show ?thesis by (intro conjI)
qed

text \<open>The amended claim C9 on the JSON list and on indexed fields with gaps.\<close>

theorem parseSubtitleStreams_indices_witness:
  "json_path_streams (JSON_parse (demo_env tool_missing)) [''streams'' \<mapsto> ''[streams]''] \<noteq> []
   \<and> parseSubtitleStreams (JSON_parse (demo_env tool_missing)) [''streams'' \<mapsto> ''[streams]'']
       = [eng_stream,
          \<lparr>index = 1, codec = ''dvd_subtitle'', language = None, title = None\<rparr>,
          fre_stream]
   \<and> map index
        (parseSubtitleStreams (JSON_parse (demo_env tool_missing)) [''streams'' \<mapsto> ''[streams]''])
       = [0, 1, 2]
   \<and> json_path_streams (\<lambda>s. None)
        [''subtitle_1_codec'' \<mapsto> ''subrip'', ''subtitle_4_codec'' \<mapsto> ''ass''] = []
   \<and> map index (parseSubtitleStreams (\<lambda>s. None)
                   [''subtitle_1_codec'' \<mapsto> ''subrip'', ''subtitle_4_codec'' \<mapsto> ''ass''])
       = [1, 4]"
proof -
  let ?jp = "JSON_parse (demo_env tool_missing)"
  let ?m = "[''streams'' \<mapsto> ''[streams]'']"
  let ?m2 = "[''subtitle_1_codec'' \<mapsto> ''subrip'', ''subtitle_4_codec'' \<mapsto> ''ass'']"
  have j: "json_path_streams ?jp ?m =
             [eng_stream,
              \<lparr>index = 1, codec = ''dvd_subtitle'', language = None, title = None\<rparr>,
              fre_stream]"
    by (simp add: json_path_streams_def demo_defs)
  have j2: "json_path_streams (\<lambda>s. None) ?m2 = []"
    by (simp add: json_path_streams_def)
  have keys: "filter (\<lambda>i. truthy (?m2 (subtitle_key i ''codec''))) [0..<20] = [1, 4]"
    by (simp add: upt_conv_Cons subtitle_key_def show_nat.simps digit_chars_def)
  from parseSubtitleStreams_indices [of ?jp ?m] parseSubtitleStreams_indices [of "\<lambda>s. None" ?m2]
    j j2 keys
  show ?thesis by (simp add: eng_stream_def fre_stream_def)
qed


end
